theory Spec2Isabelle
  imports Complex_Main
begin

section \<open>Python and numpy primitives\<close>

text \<open>
  The exceptions that the operations used by \<^verbatim>\<open>ldpc.py\<close> can raise.  The module
  defines no exception class of its own.
\<close>

datatype pyerr = ValueError | IndexError | OverflowError

definition bindE :: "pyerr + 'a \<Rightarrow> ('a \<Rightarrow> pyerr + 'b) \<Rightarrow> pyerr + 'b" where
  "bindE m f = (case m of Inl e \<Rightarrow> Inl e | Inr x \<Rightarrow> f x)"

text \<open>A \<^verbatim>\<open>for\<close> loop over a list whose body may raise: the first exception ends it.\<close>

fun foldE :: "('a \<Rightarrow> 's \<Rightarrow> pyerr + 's) \<Rightarrow> 'a list \<Rightarrow> 's \<Rightarrow> pyerr + 's" where
  "foldE f [] s = Inr s"
| "foldE f (x # xs) s = bindE (f x s) (foldE f xs)"

text \<open>\<^verbatim>\<open>xrange(n)\<close>: the integers \<open>0, \<dots>, n - 1\<close>, none when \<open>n \<le> 0\<close>.\<close>

definition xrange :: "int \<Rightarrow> int list" where
  "xrange n = map int [0..<nat n]"

text \<open>
  Reading and writing one element of a one-dimensional array: a negative index counts
  from the end, an index outside \<open>[-len, len)\<close> raises \<^verbatim>\<open>IndexError\<close>.
\<close>

definition np_index :: "nat \<Rightarrow> int \<Rightarrow> pyerr + nat" where
  "np_index len i =
     (let j = (if i < 0 then int len + i else i)
      in if 0 \<le> j \<and> j < int len then Inr (nat j) else Inl IndexError)"

definition np_get :: "'a list \<Rightarrow> int \<Rightarrow> pyerr + 'a" where
  "np_get xs i = bindE (np_index (length xs) i) (\<lambda>p. Inr (xs ! p))"

definition np_set :: "'a list \<Rightarrow> int \<Rightarrow> 'a \<Rightarrow> pyerr + 'a list" where
  "np_set xs i v = bindE (np_index (length xs) i) (\<lambda>p. Inr (xs[p := v]))"

text \<open>
  A slice bound is clipped to the array: a negative bound counts from the end and stops at
  \<open>0\<close>, a bound beyond the length stops at the length.
\<close>

definition slice_bound :: "nat \<Rightarrow> int \<Rightarrow> nat" where
  "slice_bound len a = (if a < 0 then nat (max (a + int len) 0) else min (nat a) len)"

text \<open>\<^verbatim>\<open>xs[a:b] = v\<close> for a scalar \<open>v\<close>: every position of the slice receives \<open>v\<close>.\<close>

definition slice_fill :: "'a list \<Rightarrow> int \<Rightarrow> int \<Rightarrow> 'a \<Rightarrow> 'a list" where
  "slice_fill xs a b v =
     (let lo = slice_bound (length xs) a; hi = slice_bound (length xs) b
      in map (\<lambda>p. if lo \<le> p \<and> p < hi then v else xs ! p) [0..<length xs])"

text \<open>\<^verbatim>\<open>np.zeros(n)\<close> raises \<^verbatim>\<open>ValueError\<close> for a negative dimension.\<close>

definition np_zeros :: "'a \<Rightarrow> int \<Rightarrow> pyerr + 'a list" where
  "np_zeros z n = (if n < 0 then Inl ValueError else Inr (replicate (nat n) z))"

section \<open>Floating-point values\<close>

text \<open>
  The decoder computes with doubles: the arithmetic of the processor and the functions
  \<^verbatim>\<open>np.tanh\<close> and \<^verbatim>\<open>np.arctanh\<close> of numpy.  These are not part of \<^verbatim>\<open>ldpc.py\<close>, and their
  rounding is not fixed by it, so the decoder below takes them as a parameter: a record of
  the operations it uses, over any type \<open>'f\<close> of values.
\<close>

record 'f float_ops =
  f_lit :: "int \<Rightarrow> 'f"
  f_add :: "'f \<Rightarrow> 'f \<Rightarrow> 'f"
  f_sub :: "'f \<Rightarrow> 'f \<Rightarrow> 'f"
  f_mul :: "'f \<Rightarrow> 'f \<Rightarrow> 'f"
  f_div :: "'f \<Rightarrow> 'f \<Rightarrow> 'f"
  f_tanh :: "'f \<Rightarrow> 'f"
  f_arctanh :: "'f \<Rightarrow> 'f"
  f_gt :: "'f \<Rightarrow> 'f \<Rightarrow> bool"
  f_lt :: "'f \<Rightarrow> 'f \<Rightarrow> bool"
  f_to_int64 :: "'f \<Rightarrow> pyerr + int"

text \<open>
  \<open>f_lit z\<close> is the double of the literal \<open>z\<close> (the source has \<open>0\<close>, \<open>1.0\<close>, \<open>2.0\<close>, \<open>38.0\<close> and
  \<open>-38.0\<close>); \<open>f_to_int64\<close> is the store of a double into an element of an integer array
  (\<^verbatim>\<open>np.zeros(n, int)\<close>), which may raise.
\<close>

subsection \<open>Arithmetic without rounding\<close>

text \<open>
  One implementation of the operations: a value is an exact real number or one of the
  three non-finite values.  Division by zero and \<^verbatim>\<open>arctanh\<close> outside \<open>(-1, 1)\<close> give the
  non-finite results that numpy gives (with a warning, not an exception).  Rounding,
  overflow of finite arithmetic and the sign of zero are absent from it: it agrees with
  doubles only where rounding cannot change the outcome, and it is used below only to
  evaluate the decoder at such inputs.
\<close>

datatype npfloat = Fin real | PInf | NInf | NaN

fun fneg :: "npfloat \<Rightarrow> npfloat" where
  "fneg (Fin a) = Fin (- a)"
| "fneg PInf = NInf"
| "fneg NInf = PInf"
| "fneg NaN = NaN"

fun fadd :: "npfloat \<Rightarrow> npfloat \<Rightarrow> npfloat" where
  "fadd (Fin a) (Fin b) = Fin (a + b)"
| "fadd NaN _ = NaN"
| "fadd _ NaN = NaN"
| "fadd PInf NInf = NaN"
| "fadd NInf PInf = NaN"
| "fadd PInf _ = PInf"
| "fadd _ PInf = PInf"
| "fadd NInf _ = NInf"
| "fadd _ NInf = NInf"

definition fsub :: "npfloat \<Rightarrow> npfloat \<Rightarrow> npfloat" where
  "fsub a b = fadd a (fneg b)"

text \<open>The sign of a product or quotient with an infinite operand.\<close>

definition signed_inf :: "bool \<Rightarrow> npfloat" where
  "signed_inf pos = (if pos then PInf else NInf)"

fun fmul :: "npfloat \<Rightarrow> npfloat \<Rightarrow> npfloat" where
  "fmul (Fin a) (Fin b) = Fin (a * b)"
| "fmul NaN _ = NaN"
| "fmul _ NaN = NaN"
| "fmul PInf (Fin b) = (if b = 0 then NaN else signed_inf (0 < b))"
| "fmul NInf (Fin b) = (if b = 0 then NaN else signed_inf (b < 0))"
| "fmul (Fin a) PInf = (if a = 0 then NaN else signed_inf (0 < a))"
| "fmul (Fin a) NInf = (if a = 0 then NaN else signed_inf (a < 0))"
| "fmul PInf PInf = PInf"
| "fmul PInf NInf = NInf"
| "fmul NInf PInf = NInf"
| "fmul NInf NInf = PInf"

fun fdiv :: "npfloat \<Rightarrow> npfloat \<Rightarrow> npfloat" where
  "fdiv (Fin a) (Fin b) =
     (if b \<noteq> 0 then Fin (a / b) else if a = 0 then NaN else signed_inf (0 < a))"
| "fdiv NaN _ = NaN"
| "fdiv _ NaN = NaN"
| "fdiv (Fin a) PInf = Fin 0"
| "fdiv (Fin a) NInf = Fin 0"
| "fdiv PInf (Fin b) = signed_inf (0 \<le> b)"
| "fdiv NInf (Fin b) = signed_inf (b < 0)"
| "fdiv PInf PInf = NaN"
| "fdiv PInf NInf = NaN"
| "fdiv NInf PInf = NaN"
| "fdiv NInf NInf = NaN"

fun ftanh :: "npfloat \<Rightarrow> npfloat" where
  "ftanh (Fin a) = Fin (tanh a)"
| "ftanh PInf = Fin 1"
| "ftanh NInf = Fin (- 1)"
| "ftanh NaN = NaN"

fun farctanh :: "npfloat \<Rightarrow> npfloat" where
  "farctanh (Fin a) =
     (if - 1 < a \<and> a < 1 then Fin (artanh a)
      else if a = 1 then PInf else if a = - 1 then NInf else NaN)"
| "farctanh PInf = NaN"
| "farctanh NInf = NaN"
| "farctanh NaN = NaN"

text \<open>Comparison: every comparison with \<open>NaN\<close> is false.\<close>

fun flt :: "npfloat \<Rightarrow> npfloat \<Rightarrow> bool" where
  "flt (Fin a) (Fin b) = (a < b)"
| "flt NaN _ = False"
| "flt _ NaN = False"
| "flt PInf _ = False"
| "flt _ NInf = False"
| "flt NInf _ = True"
| "flt _ PInf = True"

definition fgt :: "npfloat \<Rightarrow> npfloat \<Rightarrow> bool" where
  "fgt a b = flt b a"

text \<open>
  Storing a float into an element of an integer array (\<^verbatim>\<open>np.zeros(n, int)\<close>, 64-bit):
  the value is truncated toward zero; \<open>NaN\<close> raises \<^verbatim>\<open>ValueError\<close>, an infinity or a
  value outside the 64-bit range raises \<^verbatim>\<open>OverflowError\<close>.
\<close>

definition trunc :: "real \<Rightarrow> int" where
  "trunc r = (if 0 \<le> r then \<lfloor>r\<rfloor> else \<lceil>r\<rceil>)"

fun to_int64 :: "npfloat \<Rightarrow> pyerr + int" where
  "to_int64 (Fin r) =
     (if - (2 ^ 63) \<le> trunc r \<and> trunc r < 2 ^ 63 then Inr (trunc r) else Inl OverflowError)"
| "to_int64 PInf = Inl OverflowError"
| "to_int64 NInf = Inl OverflowError"
| "to_int64 NaN = Inl ValueError"

definition exact :: "npfloat float_ops" where
  "exact =
     \<lparr>f_lit = (\<lambda>z. Fin (of_int z)), f_add = fadd, f_sub = fsub, f_mul = fmul, f_div = fdiv,
      f_tanh = ftanh, f_arctanh = farctanh, f_gt = fgt, f_lt = flt, f_to_int64 = to_int64\<rparr>"

section \<open>The code parameters\<close>

text \<open>
  The dictionary \<^verbatim>\<open>ldpc_code_params\<close> with its ten keys.  The four adjacency and map
  arrays are flattened, one row of \<open>max_cnode_deg\<close> (or \<open>max_vnode_deg\<close>) slots per node.
\<close>

record ldpc_code_params =
  n_vnodes :: int
  n_cnodes :: int
  max_cnode_deg :: int
  max_vnode_deg :: int
  cnode_adj_list :: "int list"
  cnode_vnode_map :: "int list"
  vnode_adj_list :: "int list"
  vnode_cnode_map :: "int list"
  cnode_deg_list :: "int list"
  vnode_deg_list :: "int list"

section \<open>The decoder\<close>

text \<open>Every definition that computes with doubles takes the operations \<open>A\<close> first.\<close>

definition MAX_POS_LLR :: "'f float_ops \<Rightarrow> 'f" where
  "MAX_POS_LLR A = f_lit A 38"

definition MIN_NEG_LLR :: "'f float_ops \<Rightarrow> 'f" where
  "MIN_NEG_LLR A = f_lit A (- 38)"

definition limit_llr :: "'f float_ops \<Rightarrow> 'f \<Rightarrow> 'f" where
  "limit_llr A in_llr =
     (let out_llr = in_llr;
          out_llr = (if f_gt A in_llr (MAX_POS_LLR A) then MAX_POS_LLR A else out_llr);
          out_llr = (if f_lt A in_llr (MIN_NEG_LLR A) then MIN_NEG_LLR A else out_llr)
      in out_llr)"

text \<open>The arrays that one call of the decoder owns.\<close>

record 'f bp_state =
  cnode_msgs :: "'f list"
  vnode_msgs :: "'f list"
  dec_word :: "int list"
  out_llrs :: "int list"

text \<open>Initialisation: the live slots of variable node \<open>vnode_idx\<close> receive its channel LLR.\<close>

definition init_vnode :: "ldpc_code_params \<Rightarrow> 'f list \<Rightarrow> int \<Rightarrow> 'f list
    \<Rightarrow> pyerr + 'f list" where
  "init_vnode g llr_vec vnode_idx vmsgs =
     (let start_idx = vnode_idx * max_vnode_deg g in
      bindE (np_get (vnode_deg_list g) vnode_idx) (\<lambda>offset.
      bindE (np_get llr_vec vnode_idx) (\<lambda>l.
        Inr (slice_fill vmsgs start_idx (start_idx + offset) l))))"

text \<open>
  The message that arrives at check node \<open>cnode_idx\<close> on its edge \<open>i\<close>:
  \<^verbatim>\<open>vnode_msgs[vnode*max_vnode_deg + cnode_vnode_map[cnode_idx*max_cnode_deg + i]]\<close>
  with \<^verbatim>\<open>vnode = cnode_adj_list[cnode_idx*max_cnode_deg + i]\<close>.
\<close>

definition cnode_in_msg :: "ldpc_code_params \<Rightarrow> 'f list \<Rightarrow> int \<Rightarrow> int
    \<Rightarrow> pyerr + 'f" where
  "cnode_in_msg g vmsgs cnode_idx i =
     bindE (np_get (cnode_adj_list g) (cnode_idx * max_cnode_deg g + i)) (\<lambda>vnode.
     bindE (np_get (cnode_vnode_map g) (cnode_idx * max_cnode_deg g + i)) (\<lambda>k.
       np_get vmsgs (vnode * max_vnode_deg g + k)))"

text \<open>
  The first loop of the check-node update:
  \<^verbatim>\<open>msg_prod = 1.0\<close>, then \<^verbatim>\<open>msg_prod *= np.tanh(vnode_msgs[...]/2.0)\<close> for each edge.
\<close>

definition cnode_prod :: "'f float_ops \<Rightarrow> ldpc_code_params \<Rightarrow> 'f list \<Rightarrow> int \<Rightarrow> int
    \<Rightarrow> pyerr + 'f" where
  "cnode_prod A g vmsgs cnode_idx deg =
     foldE (\<lambda>i msg_prod. bindE (cnode_in_msg g vmsgs cnode_idx i) (\<lambda>m.
              Inr (f_mul A msg_prod (f_tanh A (f_div A m (f_lit A 2))))))
       (xrange deg) (f_lit A 1)"

text \<open>\<^verbatim>\<open>c_msg = 2.0*np.arctanh(msg_prod/np.tanh(vnode_msgs[...]/2.0))\<close>.\<close>

definition c_msg :: "'f float_ops \<Rightarrow> 'f \<Rightarrow> 'f \<Rightarrow> 'f" where
  "c_msg A msg_prod m =
     f_mul A (f_lit A 2) (f_arctanh A (f_div A msg_prod (f_tanh A (f_div A m (f_lit A 2)))))"

definition cnode_update :: "'f float_ops \<Rightarrow> ldpc_code_params \<Rightarrow> 'f list \<Rightarrow> int \<Rightarrow> 'f list
    \<Rightarrow> pyerr + 'f list" where
  "cnode_update A g vmsgs cnode_idx cmsgs =
     bindE (np_get (cnode_deg_list g) cnode_idx) (\<lambda>deg.
     bindE (cnode_prod A g vmsgs cnode_idx deg) (\<lambda>msg_prod.
       foldE (\<lambda>i cm. bindE (cnode_in_msg g vmsgs cnode_idx i) (\<lambda>m.
                np_set cm (cnode_idx * max_cnode_deg g + i) (c_msg A msg_prod m)))
         (xrange deg) cmsgs))"

definition cnode_phase :: "'f float_ops \<Rightarrow> ldpc_code_params \<Rightarrow> 'f list \<Rightarrow> 'f list
    \<Rightarrow> pyerr + 'f list" where
  "cnode_phase A g vmsgs cmsgs = foldE (cnode_update A g vmsgs) (xrange (n_cnodes g)) cmsgs"

text \<open>
  The message that arrives at variable node \<open>vnode_idx\<close> on its edge \<open>i\<close>:
  \<^verbatim>\<open>cnode_msgs[cnode*max_cnode_deg + vnode_cnode_map[vnode_idx*max_vnode_deg + i]]\<close>
  with \<^verbatim>\<open>cnode = vnode_adj_list[vnode_idx*max_vnode_deg + i]\<close>.
\<close>

definition vnode_in_msg :: "ldpc_code_params \<Rightarrow> 'f list \<Rightarrow> int \<Rightarrow> int
    \<Rightarrow> pyerr + 'f" where
  "vnode_in_msg g cmsgs vnode_idx i =
     bindE (np_get (vnode_adj_list g) (vnode_idx * max_vnode_deg g + i)) (\<lambda>cnode.
     bindE (np_get (vnode_cnode_map g) (vnode_idx * max_vnode_deg g + i)) (\<lambda>k.
       np_get cmsgs (cnode * max_cnode_deg g + k)))"

definition vnode_sum :: "'f float_ops \<Rightarrow> ldpc_code_params \<Rightarrow> 'f list \<Rightarrow> int \<Rightarrow> int
    \<Rightarrow> pyerr + 'f" where
  "vnode_sum A g cmsgs vnode_idx deg =
     foldE (\<lambda>i msg_sum. bindE (vnode_in_msg g cmsgs vnode_idx i) (\<lambda>m.
              Inr (f_add A msg_sum m)))
       (xrange deg) (f_lit A 0)"

definition vnode_update :: "'f float_ops \<Rightarrow> ldpc_code_params \<Rightarrow> 'f list \<Rightarrow> int
    \<Rightarrow> 'f bp_state \<Rightarrow> pyerr + 'f bp_state" where
  "vnode_update A g llr_vec vnode_idx st =
     bindE (np_get (vnode_deg_list g) vnode_idx) (\<lambda>deg.
     bindE (vnode_sum A g (cnode_msgs st) vnode_idx deg) (\<lambda>msg_sum.
     bindE (foldE (\<lambda>i vm. bindE (vnode_in_msg g (cnode_msgs st) vnode_idx i) (\<lambda>m.
                     bindE (np_get llr_vec vnode_idx) (\<lambda>l.
                       np_set vm (vnode_idx * max_vnode_deg g + i)
                         (limit_llr A (f_sub A (f_add A l msg_sum) m)))))
              (xrange deg) (vnode_msgs st)) (\<lambda>vm.
     bindE (np_get llr_vec vnode_idx) (\<lambda>l.
     bindE (f_to_int64 A (f_add A l msg_sum)) (\<lambda>z.
     bindE (np_set (out_llrs st) vnode_idx z) (\<lambda>ol.
     bindE (np_get ol vnode_idx) (\<lambda>z'.
     bindE (np_set (dec_word st) vnode_idx (if 0 < z' then 0 else 1)) (\<lambda>dw.
       Inr (st\<lparr>vnode_msgs := vm, out_llrs := ol, dec_word := dw\<rparr>)))))))))"

definition vnode_phase :: "'f float_ops \<Rightarrow> ldpc_code_params \<Rightarrow> 'f list \<Rightarrow> 'f bp_state
    \<Rightarrow> pyerr + 'f bp_state" where
  "vnode_phase A g llr_vec st = foldE (vnode_update A g llr_vec) (xrange (n_vnodes g)) st"

text \<open>The parity of check node \<open>cnode_idx\<close> over its live edge slots.\<close>

definition p_sum :: "ldpc_code_params \<Rightarrow> int list \<Rightarrow> int \<Rightarrow> pyerr + int" where
  "p_sum g dw cnode_idx =
     bindE (np_get (cnode_deg_list g) cnode_idx) (\<lambda>deg.
       foldE (\<lambda>i p. bindE (np_get (cnode_adj_list g) (cnode_idx * max_cnode_deg g + i)) (\<lambda>vnode.
                bindE (np_get dw vnode) (\<lambda>b. Inr (xor p b))))
         (xrange deg) 0)"

text \<open>
  The early-termination loop: it leaves at the first check node whose parity is not \<open>0\<close>
  with \<open>continue_flag = 1\<close>, and ends with \<open>continue_flag = 0\<close> otherwise.
\<close>

fun continue_flag :: "ldpc_code_params \<Rightarrow> int list \<Rightarrow> int list \<Rightarrow> pyerr + int" where
  "continue_flag g dw [] = Inr 0"
| "continue_flag g dw (cnode_idx # rest) =
     bindE (p_sum g dw cnode_idx) (\<lambda>p.
       if p \<noteq> 0 then Inr 1 else continue_flag g dw rest)"

text \<open>One pass of the main loop body up to the early-termination flag.\<close>

definition bp_iteration :: "'f float_ops \<Rightarrow> ldpc_code_params \<Rightarrow> 'f list \<Rightarrow> 'f bp_state
    \<Rightarrow> pyerr + ('f bp_state \<times> int)" where
  "bp_iteration A g llr_vec st =
     bindE (cnode_phase A g (vnode_msgs st) (cnode_msgs st)) (\<lambda>cm.
     bindE (vnode_phase A g llr_vec (st\<lparr>cnode_msgs := cm\<rparr>)) (\<lambda>st'.
     bindE (continue_flag g (dec_word st') (xrange (n_cnodes g))) (\<lambda>flag.
       Inr (st', flag))))"

text \<open>The main loop with \<open>k\<close> iterations left.\<close>

fun bp_loop :: "'f float_ops \<Rightarrow> ldpc_code_params \<Rightarrow> 'f list \<Rightarrow> nat \<Rightarrow> 'f bp_state
    \<Rightarrow> pyerr + 'f bp_state" where
  "bp_loop A g llr_vec 0 st = Inr st"
| "bp_loop A g llr_vec (Suc k) st =
     bindE (bp_iteration A g llr_vec st) (\<lambda>(st', flag).
       if flag = 0 then Inr st' else bp_loop A g llr_vec k st')"

text \<open>The state before the first iteration.\<close>

definition bp_init :: "'f float_ops \<Rightarrow> 'f list \<Rightarrow> ldpc_code_params \<Rightarrow> pyerr + 'f bp_state" where
  "bp_init A llr_vec g =
     bindE (np_zeros 0 (n_vnodes g)) (\<lambda>dw.
     bindE (np_zeros 0 (n_vnodes g)) (\<lambda>ol.
     bindE (np_zeros (f_lit A 0) (n_cnodes g * max_cnode_deg g)) (\<lambda>cm.
     bindE (np_zeros (f_lit A 0) (n_vnodes g * max_vnode_deg g)) (\<lambda>vm0.
     bindE (foldE (init_vnode g llr_vec) (xrange (n_vnodes g)) vm0) (\<lambda>vm.
       Inr \<lparr>cnode_msgs = cm, vnode_msgs = vm, dec_word = dw, out_llrs = ol\<rparr>)))))"

definition ldpc_bp_decode :: "'f float_ops \<Rightarrow> 'f list \<Rightarrow> ldpc_code_params \<Rightarrow> int
    \<Rightarrow> pyerr + (int list \<times> int list)" where
  "ldpc_bp_decode A llr_vec g n_iters =
     bindE (bp_init A llr_vec g) (\<lambda>st0.
     bindE (bp_loop A g llr_vec (nat n_iters) st0) (\<lambda>st.
       Inr (dec_word st, out_llrs st)))"

section \<open>Reading the code design file\<close>

text \<open>
  The design file is given as the lines that successive \<^verbatim>\<open>readline()\<close> calls return, each
  with its line terminator; at the end of the file \<^verbatim>\<open>readline()\<close> returns the empty string.
\<close>

fun readline :: "string list \<Rightarrow> string \<times> string list" where
  "readline [] = ([], [])"
| "readline (l # ls) = (l, ls)"

text \<open>\<^verbatim>\<open>s.split(sep)\<close> for a one-character separator: empty fields are kept.\<close>

fun split_on :: "char \<Rightarrow> string \<Rightarrow> string list" where
  "split_on sep [] = [[]]"
| "split_on sep (x # xs) =
     (if x = sep then [] # split_on sep xs
      else (x # hd (split_on sep xs)) # tl (split_on sep xs))"

text \<open>
  \<^verbatim>\<open>int(x)\<close> on a string, for decimal literals: surrounding whitespace, an optional sign
  and at least one digit; anything else raises \<^verbatim>\<open>ValueError\<close>.  Python integers are
  unbounded.
\<close>

definition is_space :: "char \<Rightarrow> bool" where
  "is_space c \<longleftrightarrow> c \<in> set [CHR 0x20, CHR 0x09, CHR 0x0A, CHR 0x0B, CHR 0x0C, CHR 0x0D]"

definition strip :: "string \<Rightarrow> string" where
  "strip s = rev (dropWhile is_space (rev (dropWhile is_space s)))"

definition is_digit :: "char \<Rightarrow> bool" where
  "is_digit c \<longleftrightarrow> 48 \<le> (of_char c :: nat) \<and> (of_char c :: nat) \<le> 57"

definition digits_val :: "string \<Rightarrow> int" where
  "digits_val ds = foldl (\<lambda>a c. 10 * a + (int (of_char c) - 48)) 0 ds"

definition py_int :: "string \<Rightarrow> pyerr + int" where
  "py_int s =
     (let t = strip s;
          signed = (t \<noteq> [] \<and> (hd t = CHR ''-'' \<or> hd t = CHR ''+''));
          ds = (if signed then tl t else t)
      in if ds \<noteq> [] \<and> list_all is_digit ds
         then Inr (if signed \<and> hd t = CHR ''-'' then - digits_val ds else digits_val ds)
         else Inl ValueError)"

text \<open>A list comprehension whose element expression may raise.\<close>

fun mapE :: "('a \<Rightarrow> pyerr + 'b) \<Rightarrow> 'a list \<Rightarrow> pyerr + 'b list" where
  "mapE f [] = Inr []"
| "mapE f (x # xs) = bindE (f x) (\<lambda>y. bindE (mapE f xs) (\<lambda>ys. Inr (y # ys)))"

text \<open>
  Conversion of a 64-bit array to \<^verbatim>\<open>np.int32\<close> (\<^verbatim>\<open>astype\<close>) keeps the low 32 bits (two's
  complement).  Elements of the default integer arrays are modelled as unbounded integers.
\<close>

definition wrap32 :: "int \<Rightarrow> int" where
  "wrap32 z = (z + 2 ^ 31) mod 2 ^ 32 - 2 ^ 31"

text \<open>
  An element of \<^verbatim>\<open>np.array(xs, np.int32)\<close> built from a Python integer: an integer that does
  not fit 64 bits raises \<^verbatim>\<open>OverflowError\<close>, any other is reduced to its low 32 bits.
\<close>

definition to_int32 :: "int \<Rightarrow> pyerr + int" where
  "to_int32 z =
     (if - (2 ^ 63) \<le> z \<and> z < 2 ^ 63 then Inr (wrap32 z) else Inl OverflowError)"

text \<open>The two header lines: \<^verbatim>\<open>[a, b] = [int(x) for x in readline().split(' ')]\<close>.\<close>

definition parse_pair :: "string \<Rightarrow> pyerr + (int \<times> int)" where
  "parse_pair line =
     bindE (mapE py_int (split_on (CHR 0x20) line)) (\<lambda>xs.
       case xs of [a, b] \<Rightarrow> Inr (a, b) | _ \<Rightarrow> Inl ValueError)"

text \<open>
  The two degree lines:
  \<^verbatim>\<open>np.array([int(x) for x in readline().split(' ')[:-1]], np.int32)\<close>.
  The last field is dropped before any conversion; the fields are converted to Python
  integers first and to \<^verbatim>\<open>np.int32\<close> afterwards.
\<close>

definition parse_degs :: "string \<Rightarrow> pyerr + int list" where
  "parse_degs line =
     bindE (mapE py_int (butlast (split_on (CHR 0x20) line))) (mapE to_int32)"

text \<open>\<^verbatim>\<open>-np.ones([n, m], int)\<close>: \<open>n\<close> rows of \<open>m\<close> sentinels; a negative dimension raises.\<close>

definition neg_ones :: "int \<Rightarrow> int \<Rightarrow> pyerr + int list list" where
  "neg_ones n m =
     (if n < 0 \<or> m < 0 then Inl ValueError
      else Inr (replicate (nat n) (replicate (nat m) (- 1))))"

text \<open>
  \<^verbatim>\<open>row[0:deg] = vals\<close>: the values must be as many as the slice holds, or exactly one
  (which is then broadcast); otherwise numpy raises \<^verbatim>\<open>ValueError\<close>.  The slice is clipped
  to the row, whatever \<open>deg\<close> is.
\<close>

definition slice_assign :: "int list \<Rightarrow> int \<Rightarrow> int list \<Rightarrow> pyerr + int list" where
  "slice_assign row deg vals =
     (let hi = slice_bound (length row) deg in
      if length vals = hi then Inr (vals @ drop hi row)
      else if length vals = 1 then Inr (replicate hi (hd vals) @ drop hi row)
      else Inl ValueError)"

text \<open>
  One pass of the loops that fill the adjacency arrays:
  \<^verbatim>\<open>adj[idx, 0:deg_list[idx]] = np.array([int(x)-1 for x in readline().split('\t')])\<close>.
\<close>

definition fill_row :: "int list \<Rightarrow> int \<Rightarrow> int list list \<times> string list
    \<Rightarrow> pyerr + (int list list \<times> string list)" where
  "fill_row deg_list idx = (\<lambda>(adj, file).
     (let (line, file') = readline file in
      bindE (mapE (\<lambda>x. bindE (py_int x) (\<lambda>z. Inr (z - 1))) (split_on (CHR 0x09) line)) (\<lambda>vals.
      bindE (np_get deg_list idx) (\<lambda>deg.
      bindE (np_get adj idx) (\<lambda>row.
      bindE (slice_assign row deg vals) (\<lambda>row'.
      bindE (np_set adj idx row') (\<lambda>adj'.
        Inr (adj', file'))))))))"

text \<open>
  Indexing a one-dimensional array by a boolean mask selects the positions where the mask
  is true.  When the mask and the array differ in length, the behaviour depends on the
  version of numpy: recent versions raise \<^verbatim>\<open>IndexError\<close> (\<open>strict\<close>), old versions select
  the true positions all the same and raise only for a true position beyond the array.
  The flag \<open>strict\<close> chooses between the two.
\<close>

definition bool_index :: "bool \<Rightarrow> 'a list \<Rightarrow> bool list \<Rightarrow> pyerr + 'a list" where
  "bool_index strict xs sel_mask =
     (let pos = filter (\<lambda>p. sel_mask ! p) [0..<length sel_mask] in
      if strict \<and> length sel_mask \<noteq> length xs then Inl IndexError
      else if list_all (\<lambda>p. p < length xs) pos then Inr (map (\<lambda>p. xs ! p) pos)
      else Inl IndexError)"

text \<open>\<^verbatim>\<open>m[r, c] = v\<close> on a two-dimensional array.\<close>

definition np_set2 :: "'a list list \<Rightarrow> int \<Rightarrow> int \<Rightarrow> 'a \<Rightarrow> pyerr + 'a list list" where
  "np_set2 m r c v =
     bindE (np_get m r) (\<lambda>row.
     bindE (np_set row c v) (\<lambda>row'.
       np_set m r row'))"

text \<open>
  One entry of a cross-reference map,
  \<^verbatim>\<open>cnode_vnode_map[cnode, i] = cnode_list[vnode_adj_list[vnode, :] == cnode]\<close>
  (and the same with the roles exchanged): the selection must hold exactly one element to
  be stored into one slot.
\<close>

definition map_entry :: "bool \<Rightarrow> int list list \<Rightarrow> int list \<Rightarrow> int \<Rightarrow> int \<Rightarrow> int
    \<Rightarrow> int list list \<Rightarrow> pyerr + int list list" where
  "map_entry strict other_adj node_list node i nb m =
     bindE (np_get other_adj nb) (\<lambda>row.
     bindE (bool_index strict node_list (map (\<lambda>e. e = node) row)) (\<lambda>sel.
       case sel of [x] \<Rightarrow> np_set2 m node i x | _ \<Rightarrow> Inl ValueError))"

text \<open>The inner loop: \<^verbatim>\<open>for i, nb in enumerate(adj[node, 0:deg_list[node]])\<close>.\<close>

definition map_row :: "bool \<Rightarrow> int list list \<Rightarrow> int list \<Rightarrow> int list list \<Rightarrow> int list
    \<Rightarrow> int \<Rightarrow> int list list \<Rightarrow> pyerr + int list list" where
  "map_row strict adj deg_list other_adj node_list node m =
     bindE (np_get deg_list node) (\<lambda>deg.
     bindE (np_get adj node) (\<lambda>row.
       foldE (\<lambda>(i, nb). map_entry strict other_adj node_list node (int i) nb)
         (enumerate 0 (take (slice_bound (length row) deg) row)) m))"

text \<open>
  The dense parity-check matrix, \<^verbatim>\<open>pmat[cnode_idx, cnode_adj_list[cnode_idx, :]] = 1\<close>.
  It is built from whole rows, sentinels included, and is not returned.
\<close>

definition pmat_row :: "int list list \<Rightarrow> int \<Rightarrow> int list list \<Rightarrow> pyerr + int list list" where
  "pmat_row cadj cnode_idx pmat =
     bindE (np_get cadj cnode_idx) (\<lambda>row.
     bindE (np_get pmat cnode_idx) (\<lambda>prow.
     bindE (foldE (\<lambda>e r. np_set r e 1) row prow) (\<lambda>prow'.
       np_set pmat cnode_idx prow')))"

text \<open>
  The reader.  Its first argument is the flag for boolean indexing, its second the
  contents of the file named by \<^verbatim>\<open>ldpc_design_filename\<close>.  Python integers and the elements of
  the two-dimensional arrays are unbounded here; only the conversions to \<^verbatim>\<open>np.int32\<close> wrap.
\<close>

definition get_ldpc_code_params :: "bool \<Rightarrow> string list \<Rightarrow> pyerr + ldpc_code_params" where
  "get_ldpc_code_params strict ldpc_design_file =
     (let (l1, f1) = readline ldpc_design_file in
      bindE (parse_pair l1) (\<lambda>(nv, nc).
     (let (l2, f2) = readline f1 in
      bindE (parse_pair l2) (\<lambda>(mvd, mcd).
     (let (l3, f3) = readline f2 in
      bindE (parse_degs l3) (\<lambda>vdeg.
     (let (l4, f4) = readline f3 in
      bindE (parse_degs l4) (\<lambda>cdeg.
      bindE (neg_ones nc mcd) (\<lambda>cadj0.
      bindE (neg_ones nv mvd) (\<lambda>vadj0.
      bindE (foldE (fill_row vdeg) (xrange nv) (vadj0, f4)) (\<lambda>(vadj, f5).
      bindE (foldE (fill_row cdeg) (xrange nc) (cadj0, f5)) (\<lambda>(cadj, f6).
      bindE (neg_ones nc mcd) (\<lambda>cmap0.
      bindE (neg_ones nv mvd) (\<lambda>vmap0.
      bindE (foldE (map_row strict cadj cdeg vadj (xrange nc)) (xrange nc) cmap0) (\<lambda>cmap.
      bindE (foldE (map_row strict vadj vdeg cadj (xrange nv)) (xrange nv) vmap0) (\<lambda>vmap.
      bindE (foldE (pmat_row cadj) (xrange nc) (replicate (nat nc) (replicate (nat nv) 0)))
        (\<lambda>pmat.
        Inr \<lparr>n_vnodes = nv, n_cnodes = nc, max_cnode_deg = mcd, max_vnode_deg = mvd,
             cnode_adj_list = map wrap32 (concat cadj),
             cnode_vnode_map = map wrap32 (concat cmap),
             vnode_adj_list = map wrap32 (concat vadj),
             vnode_cnode_map = map wrap32 (concat vmap),
             cnode_deg_list = cdeg, vnode_deg_list = vdeg\<rparr>)))))))))))))))))"

section \<open>Well-formed graphs and the quantities the properties speak of\<close>

text \<open>The position of edge slot \<open>i\<close> of check node \<open>c\<close> (variable node \<open>v\<close>) in a flattened array.\<close>

definition cslot :: "ldpc_code_params \<Rightarrow> nat \<Rightarrow> nat \<Rightarrow> nat" where
  "cslot g c i = nat (int c * max_cnode_deg g + int i)"

definition vslot :: "ldpc_code_params \<Rightarrow> nat \<Rightarrow> nat \<Rightarrow> nat" where
  "vslot g v i = nat (int v * max_vnode_deg g + int i)"

text \<open>
  The index structure of a Tanner graph: the counts and strides are not negative, every
  array has the length its stride asks for, every degree lies between \<open>0\<close> and the stride,
  and every live slot holds a node index and a slot index that exist.
\<close>

definition wf_graph :: "ldpc_code_params \<Rightarrow> bool" where
  "wf_graph g \<longleftrightarrow>
     0 \<le> n_vnodes g \<and> 0 \<le> n_cnodes g \<and> 0 \<le> max_cnode_deg g \<and> 0 \<le> max_vnode_deg g \<and>
     int (length (cnode_deg_list g)) = n_cnodes g \<and>
     int (length (vnode_deg_list g)) = n_vnodes g \<and>
     int (length (cnode_adj_list g)) = n_cnodes g * max_cnode_deg g \<and>
     int (length (cnode_vnode_map g)) = n_cnodes g * max_cnode_deg g \<and>
     int (length (vnode_adj_list g)) = n_vnodes g * max_vnode_deg g \<and>
     int (length (vnode_cnode_map g)) = n_vnodes g * max_vnode_deg g \<and>
     (\<forall>c \<in> set [0..<nat (n_cnodes g)].
        0 \<le> cnode_deg_list g ! c \<and> cnode_deg_list g ! c \<le> max_cnode_deg g \<and>
        (\<forall>i \<in> set [0..<nat (cnode_deg_list g ! c)].
           0 \<le> cnode_adj_list g ! cslot g c i \<and> cnode_adj_list g ! cslot g c i < n_vnodes g \<and>
           0 \<le> cnode_vnode_map g ! cslot g c i \<and>
           cnode_vnode_map g ! cslot g c i < max_vnode_deg g)) \<and>
     (\<forall>v \<in> set [0..<nat (n_vnodes g)].
        0 \<le> vnode_deg_list g ! v \<and> vnode_deg_list g ! v \<le> max_vnode_deg g \<and>
        (\<forall>i \<in> set [0..<nat (vnode_deg_list g ! v)].
           0 \<le> vnode_adj_list g ! vslot g v i \<and> vnode_adj_list g ! vslot g v i < n_cnodes g \<and>
           0 \<le> vnode_cnode_map g ! vslot g v i \<and>
           vnode_cnode_map g ! vslot g v i < max_cnode_deg g))"

text \<open>
  The variable-node message that check node \<open>c\<close> receives on its edge \<open>i\<close>, located through
  \<open>cnode_adj_list\<close> and \<open>cnode_vnode_map\<close>.
\<close>

definition incoming :: "ldpc_code_params \<Rightarrow> 'f list \<Rightarrow> nat \<Rightarrow> nat \<Rightarrow> 'f" where
  "incoming g vmsgs c i =
     vmsgs ! nat (cnode_adj_list g ! cslot g c i * max_vnode_deg g
                  + cnode_vnode_map g ! cslot g c i)"

text \<open>
  The parity of check node \<open>c\<close>: the exclusive or of the hard-decision bits of the variable
  nodes on its live edge slots.
\<close>

definition parity :: "ldpc_code_params \<Rightarrow> int list \<Rightarrow> nat \<Rightarrow> int" where
  "parity g dw c =
     foldl xor 0 (map (\<lambda>i. dw ! nat (cnode_adj_list g ! cslot g c i))
                      [0..<nat (cnode_deg_list g ! c)])"

text \<open>A value that lies within the clipping range.\<close>

definition clipped :: "npfloat \<Rightarrow> bool" where
  "clipped x \<longleftrightarrow> (case x of Fin r \<Rightarrow> - 38 \<le> r \<and> r \<le> 38 | _ \<Rightarrow> False)"

text \<open>
  What the clipping property needs of the operations \<open>A\<close>, with \<open>den x\<close> the number,
  infinity or \<open>NaN\<close> that the value \<open>x\<close> stands for: the two bounds are exactly \<open>38\<close> and
  \<open>-38\<close>; a comparison compares the numbers and is false on \<open>NaN\<close>; only a finite value can
  be stored into an integer array; a sum is finite only if both operands are; the
  difference of two finite values is not \<open>NaN\<close> (it may overflow to an infinity).  Doubles
  have these properties.
\<close>

definition ieee_like :: "'f float_ops \<Rightarrow> ('f \<Rightarrow> npfloat) \<Rightarrow> bool" where
  "ieee_like A den \<longleftrightarrow>
     den (MAX_POS_LLR A) = Fin 38 \<and> den (MIN_NEG_LLR A) = Fin (- 38) \<and>
     (\<forall>x y. f_gt A x y = fgt (den x) (den y)) \<and>
     (\<forall>x y. f_lt A x y = flt (den x) (den y)) \<and>
     (\<forall>x z. f_to_int64 A x = Inr z \<longrightarrow> (\<exists>r. den x = Fin r)) \<and>
     (\<forall>x y r. den (f_add A x y) = Fin r \<longrightarrow> (\<exists>a b. den x = Fin a \<and> den y = Fin b)) \<and>
     (\<forall>x y a b. den x = Fin a \<longrightarrow> den y = Fin b \<longrightarrow> den (f_sub A x y) \<noteq> NaN)"

text \<open>
  The product of \<open>tanh (m / 2)\<close> over the messages \<open>ms\<close>, taken in the order of the edges from
  \<open>1.0\<close>, with the operations \<open>A\<close>.
\<close>

definition tanh_product :: "'f float_ops \<Rightarrow> 'f list \<Rightarrow> 'f" where
  "tanh_product A ms =
     foldl (\<lambda>p m. f_mul A p (f_tanh A (f_div A m (f_lit A 2)))) (f_lit A 1) ms"

text \<open>Every check node has parity \<open>0\<close>.\<close>

definition all_parity_zero :: "ldpc_code_params \<Rightarrow> int list \<Rightarrow> bool" where
  "all_parity_zero g dw \<longleftrightarrow> (\<forall>c \<in> set [0..<nat (n_cnodes g)]. parity g dw c = 0)"

text \<open>
  The state after \<open>k\<close> passes of the three phases, started in \<open>st\<close>, whatever the parities
  are.
\<close>

fun after_iterations :: "'f float_ops \<Rightarrow> ldpc_code_params \<Rightarrow> 'f list \<Rightarrow> nat \<Rightarrow> 'f bp_state
    \<Rightarrow> pyerr + 'f bp_state" where
  "after_iterations A g llr_vec 0 st = Inr st"
| "after_iterations A g llr_vec (Suc k) st =
     bindE (bp_iteration A g llr_vec st) (\<lambda>(st', flag). after_iterations A g llr_vec k st')"

section \<open>Example inputs\<close>

text \<open>One check node that joins two variable nodes.\<close>

definition pair_graph :: ldpc_code_params where
  "pair_graph =
     \<lparr>n_vnodes = 2, n_cnodes = 1, max_cnode_deg = 2, max_vnode_deg = 1,
      cnode_adj_list = [0, 1], cnode_vnode_map = [0, 0],
      vnode_adj_list = [0, 0], vnode_cnode_map = [0, 1],
      cnode_deg_list = [2], vnode_deg_list = [1, 1]\<rparr>"

text \<open>Three variable nodes in a row, joined by two check nodes.\<close>

definition chain_graph :: ldpc_code_params where
  "chain_graph =
     \<lparr>n_vnodes = 3, n_cnodes = 2, max_cnode_deg = 2, max_vnode_deg = 2,
      cnode_adj_list = [0, 1, 1, 2], cnode_vnode_map = [0, 0, 1, 0],
      vnode_adj_list = [0, - 1, 0, 1, 1, - 1], vnode_cnode_map = [0, - 1, 1, 0, 1, - 1],
      cnode_deg_list = [2, 2], vnode_deg_list = [1, 2, 1]\<rparr>"

text \<open>The design file of \<open>pair_graph\<close>.\<close>

definition pair_file :: "string list" where
  "pair_file =
     [''2 1'' @ [CHR 0x0A], ''1 2'' @ [CHR 0x0A], ''1 1 '' @ [CHR 0x0A], ''2 '' @ [CHR 0x0A],
      ''1'' @ [CHR 0x0A], ''1'' @ [CHR 0x0A], ''1'' @ [CHR 0x09] @ ''2'' @ [CHR 0x0A]]"

text \<open>
  A design file for one variable node and one check node, both strides \<open>1\<close>, that declares
  degree \<open>2\<close> for the variable node.
\<close>

definition overdeg_file :: "string list" where
  "overdeg_file =
     [''1 1'' @ [CHR 0x0A], ''1 1'' @ [CHR 0x0A], ''2 '' @ [CHR 0x0A], ''1 '' @ [CHR 0x0A],
      ''1'' @ [CHR 0x0A], ''1'' @ [CHR 0x0A]]"

text \<open>The parameters that the reader returns for \<open>overdeg_file\<close>.\<close>

definition overdeg_graph :: ldpc_code_params where
  "overdeg_graph =
     \<lparr>n_vnodes = 1, n_cnodes = 1, max_cnode_deg = 1, max_vnode_deg = 1,
      cnode_adj_list = [0], cnode_vnode_map = [0],
      vnode_adj_list = [0], vnode_cnode_map = [0],
      cnode_deg_list = [1], vnode_deg_list = [2]\<rparr>"

section \<open>The quantities that the properties of the reader speak of\<close>

text \<open>A two-dimensional array of \<open>n\<close> rows of length \<open>m\<close>.\<close>

definition table :: "nat \<Rightarrow> nat \<Rightarrow> 'a list list \<Rightarrow> bool" where
  "table n m t \<longleftrightarrow> length t = n \<and> (\<forall>row \<in> set t. length row = m)"

text \<open>
  \<open>x\<close> is the slot at which the row of node \<open>nb\<close> in \<open>other\<close> holds \<open>node\<close>, and it is the
  only such slot of that row.
\<close>

definition back_ref :: "int list list \<Rightarrow> int \<Rightarrow> int \<Rightarrow> int \<Rightarrow> bool" where
  "back_ref other nb node x \<longleftrightarrow>
     (\<exists>rowp q. np_index (length other) nb = Inr rowp \<and> x = int q \<and>
        q < length (other ! rowp) \<and> other ! rowp ! q = node \<and>
        (\<forall>q'<length (other ! rowp). other ! rowp ! q' = node \<longrightarrow> q' = q))"

text \<open>The node counts and strides do not exceed the range of \<^verbatim>\<open>np.int32\<close> indices.\<close>

definition int32_sized :: "ldpc_code_params \<Rightarrow> bool" where
  "int32_sized g \<longleftrightarrow>
     n_vnodes g \<le> 2 ^ 31 \<and> n_cnodes g \<le> 2 ^ 31 \<and>
     max_vnode_deg g \<le> 2 ^ 31 \<and> max_cnode_deg g \<le> 2 ^ 31"

text \<open>
  Every node index in a slot below the declared degree and below the stride is an index
  that numpy accepts for an array of \<open>n\<close> rows: it lies in \<open>[-n, n)\<close>.
\<close>

definition live_indices_in_range :: "ldpc_code_params \<Rightarrow> bool" where
  "live_indices_in_range g \<longleftrightarrow>
     (\<forall>v \<in> set [0..<nat (n_vnodes g)]. \<forall>i \<in> set [0..<nat (vnode_deg_list g ! v)].
        i < nat (max_vnode_deg g) \<longrightarrow>
        - n_cnodes g \<le> vnode_adj_list g ! vslot g v i \<and>
        vnode_adj_list g ! vslot g v i < n_cnodes g) \<and>
     (\<forall>c \<in> set [0..<nat (n_cnodes g)]. \<forall>i \<in> set [0..<nat (cnode_deg_list g ! c)].
        i < nat (max_cnode_deg g) \<longrightarrow>
        - n_vnodes g \<le> cnode_adj_list g ! cslot g c i \<and>
        cnode_adj_list g ! cslot g c i < n_vnodes g)"

text \<open>A header line: exactly two fields, each of them an integer literal.\<close>

definition header_ok :: "string \<Rightarrow> bool" where
  "header_ok line \<longleftrightarrow>
     length (split_on (CHR 0x20) line) = 2 \<and>
     list_all (\<lambda>t. \<not> isl (py_int t)) (split_on (CHR 0x20) line)"

section \<open>Basic facts\<close>

lemma bindE_Inl [simp]: "bindE (Inl e) f = Inl e"
  by (simp add: bindE_def)

lemma bindE_Inr [simp]: "bindE (Inr x) f = f x"
  by (simp add: bindE_def)

lemma tanh_real_bounds_simps [simp]:
  "tanh (x::real) \<noteq> 1" "tanh (x::real) \<noteq> - 1" "tanh x < (1::real)" "- 1 < tanh (x::real)"
  using tanh_real_lt_1[of x] tanh_real_gt_neg1[of x] by auto

lemma bindE_eq_Inr: "bindE m f = Inr y \<longleftrightarrow> (\<exists>x. m = Inr x \<and> f x = Inr y)"
  by (cases m) auto

lemma bindE_assoc: "bindE (bindE m f) h = bindE m (\<lambda>x. bindE (f x) h)"
  by (cases m) auto

lemma foldE_append: "foldE f (xs @ ys) s = bindE (foldE f xs s) (foldE f ys)"
proof (induction xs arbitrary: s)
  case Nil
  show ?case by simp
next
  case (Cons x xs)
  show ?case by (cases "f x s") (simp_all add: Cons.IH)
qed

lemma foldE_total:
  assumes "\<And>x s. x \<in> set xs \<Longrightarrow> \<exists>s'. f x s = Inr s'"
  shows "\<exists>s'. foldE f xs s = Inr s'"
  using assms
proof (induction xs arbitrary: s)
  case Nil
  show ?case by simp
next
  case (Cons x xs)
  obtain s1 where s1: "f x s = Inr s1" using Cons.prems[of x s] by auto
  have "\<exists>s'. foldE f xs s1 = Inr s'" using Cons.prems by (intro Cons.IH) auto
  with s1 show ?case by simp
qed

lemma foldE_fails:
  assumes ok: "\<And>y s. y \<in> set xs \<Longrightarrow> \<exists>s'. f y s = Inr s'"
    and bad: "\<And>s. f x s = Inl e"
  shows "foldE f (xs @ x # ys) s = Inl e"
proof -
  obtain s1 where "foldE f xs s = Inr s1" using foldE_total[of xs f s] ok by blast
  then show ?thesis by (simp add: foldE_append bad)
qed

lemma foldE_invariant:
  assumes "foldE f xs s = Inr s'" and "P s"
    and "\<And>x a b. x \<in> set xs \<Longrightarrow> P a \<Longrightarrow> f x a = Inr b \<Longrightarrow> P b"
  shows "P s'"
  using assms
proof (induction xs arbitrary: s)
  case Nil
  then show ?case by simp
next
  case (Cons x xs)
  from Cons.prems(1) obtain s1 where s1: "f x s = Inr s1" and r: "foldE f xs s1 = Inr s'"
    by (auto simp: bindE_eq_Inr)
  have "P s1" using Cons.prems(2,3) s1 by auto
  then show ?case using Cons.IH[OF r] Cons.prems(3) by auto
qed

lemma xrange_nonpos [simp]: "n \<le> 0 \<Longrightarrow> xrange n = []"
  by (simp add: xrange_def)

lemma xrange_Suc: "xrange (int (Suc k)) = xrange (int k) @ [int k]"
  unfolding xrange_def nat_int by simp

lemma set_xrange: "i \<in> set (xrange n) \<longleftrightarrow> 0 \<le> i \<and> i < n"
  by (auto simp: xrange_def image_iff intro: bexI[of _ "nat i"])

lemma xrange_split:
  assumes "k < nat n"
  shows "xrange n = xrange (int k) @ int k # map int [Suc k..<nat n]"
proof -
  have "[0..<nat n] = [0..<k] @ k # [Suc k..<nat n]"
    using assms by (metis less_imp_le_nat upt_add_eq_append upt_conv_Cons le0 le_add_diff_inverse)
  then show ?thesis by (simp add: xrange_def)
qed

lemma np_index_nat [simp]: "p < len \<Longrightarrow> np_index len (int p) = Inr p"
  by (simp add: np_index_def)

lemma np_index_Inr: "np_index len i = Inr p \<Longrightarrow> p < len"
  by (auto simp: np_index_def Let_def split: if_splits)

lemma np_index_nonneg: "0 \<le> i \<Longrightarrow> i < int len \<Longrightarrow> np_index len i = Inr (nat i)"
  by (simp add: np_index_def)

lemma np_index_beyond: "int len \<le> i \<Longrightarrow> np_index len i = Inl IndexError"
  by (simp add: np_index_def)

lemma np_get_nonneg: "0 \<le> i \<Longrightarrow> i < int (length xs) \<Longrightarrow> np_get xs i = Inr (xs ! nat i)"
  by (simp add: np_get_def np_index_nonneg)

lemma np_set_nonneg: "0 \<le> i \<Longrightarrow> i < int (length xs) \<Longrightarrow> np_set xs i v = Inr (xs[nat i := v])"
  by (simp add: np_set_def np_index_nonneg)

lemma np_get_beyond: "int (length xs) \<le> i \<Longrightarrow> np_get xs i = Inl IndexError"
  by (simp add: np_get_def np_index_beyond)

lemma np_set_length: "np_set xs i v = Inr ys \<Longrightarrow> length ys = length xs"
  by (auto simp: np_set_def bindE_eq_Inr)

lemma wf_pair_graph: "wf_graph pair_graph"
  by code_simp

text \<open>The equations that evaluate the decoder on \<open>pair_graph\<close>.\<close>

lemmas decode_eval =
  exact_def pair_graph_def ldpc_bp_decode_def bp_init_def np_zeros_def xrange_def init_vnode_def
  np_get_def np_set_def np_index_def slice_fill_def slice_bound_def bp_iteration_def
  cnode_phase_def cnode_update_def cnode_prod_def cnode_in_msg_def c_msg_def vnode_phase_def
  vnode_update_def vnode_sum_def vnode_in_msg_def limit_llr_def fgt_def fsub_def
  MAX_POS_LLR_def MIN_NEG_LLR_def p_sum_def trunc_def signed_inf_def upt_rec eval_nat_numeral

section \<open>The integer output array\<close>

text \<open>
  The three evaluations of this section use the arithmetic \<open>exact\<close>.  Rounding cannot
  change their outcome: a posterior close to \<open>1/2\<close> is truncated to \<open>0\<close> whatever its last
  bits are, and \<open>tanh 0 = 0\<close>, \<open>0 / 0 = NaN\<close> hold in double arithmetic as they do here.
\<close>

text \<open>
  Claim C5 (hard decision from the posterior LLR).  The claim asks for \<open>dec_word[v] = 0\<close>
  whenever the posterior LLR is greater than \<open>0\<close>.  The decoder compares the element of
  \<open>out_llrs\<close>, an integer array, so the posterior is truncated toward zero first.  On
  \<open>pair_graph\<close> with both channel LLRs \<open>1/4\<close> each variable node receives the message
  \<open>1/4\<close>, its posterior is \<open>1/2\<close>, the stored value is \<open>0\<close>, and both bits are decided \<open>1\<close>.
\<close>

theorem weak_positive_llr_decides_one:
  "map_sum id fst (ldpc_bp_decode exact [Fin (1 / 4), Fin (1 / 4)] pair_graph 1) = Inr [1, 1]"
  by (simp add: decode_eval artanh_tanh_real)

text \<open>
  Claim C6 (the returned posterior LLRs).  The claim asks for \<open>out_llrs[v]\<close> to be the
  channel LLR plus the full sum of the incoming messages.  On the same input the posteriors
  are \<open>1/2\<close> and the decoder returns the integers \<open>0\<close>.
\<close>

theorem out_llrs_truncated:
  "map_sum id snd (ldpc_bp_decode exact [Fin (1 / 4), Fin (1 / 4)] pair_graph 1) = Inr [0, 0]"
  by (simp add: decode_eval artanh_tanh_real)

text \<open>
  Claim C7 (the decoder always returns).  With both channel LLRs \<open>0\<close> the check node
  divides \<open>0\<close> by \<open>0\<close>; the message is \<open>NaN\<close>, and storing the posterior \<open>NaN\<close> into the
  integer array \<open>out_llrs\<close> raises \<^verbatim>\<open>ValueError\<close> in the first iteration.
\<close>

theorem zero_llr_raises:
  "ldpc_bp_decode exact [Fin 0, Fin 0] pair_graph 1 = Inl ValueError"
  by (simp add: decode_eval)

section \<open>Calls without iterations and calls with a short LLR vector\<close>

lemma init_vnode_ok:
  assumes "int (length (vnode_deg_list g)) = n_vnodes g" "n_vnodes g \<le> int (length llr_vec)"
    and "v \<in> set (xrange (n_vnodes g))"
  shows "\<exists>vm'. init_vnode g llr_vec v vm = Inr vm'"
  using assms by (auto simp: init_vnode_def set_xrange np_get_nonneg Let_def)

lemma bp_init_ok:
  assumes wf: "wf_graph g" and len: "n_vnodes g \<le> int (length llr_vec)"
  shows "\<exists>vm. bp_init A llr_vec g =
     Inr \<lparr>cnode_msgs = replicate (nat (n_cnodes g * max_cnode_deg g)) (f_lit A 0), vnode_msgs = vm,
          dec_word = replicate (nat (n_vnodes g)) 0, out_llrs = replicate (nat (n_vnodes g)) 0\<rparr>"
proof -
  from wf have nn: "0 \<le> n_vnodes g" "0 \<le> n_cnodes g * max_cnode_deg g"
      "0 \<le> n_vnodes g * max_vnode_deg g" and lv: "int (length (vnode_deg_list g)) = n_vnodes g"
    by (simp_all add: wf_graph_def)
  obtain vm where "foldE (init_vnode g llr_vec) (xrange (n_vnodes g))
      (replicate (nat (n_vnodes g * max_vnode_deg g)) (f_lit A 0)) = Inr vm"
    using foldE_total[of "xrange (n_vnodes g)" "init_vnode g llr_vec"] init_vnode_ok[OF lv len]
    by blast
  then show ?thesis using nn by (simp add: bp_init_def np_zeros_def)
qed

text \<open>
  Claim C10 (no iteration budget).  For a well-formed graph and an LLR vector of length
  \<open>n_vnodes\<close>, a call with \<open>n_iters \<le> 0\<close> runs the initialisation only and returns the
  all-zero integer vectors of length \<open>n_vnodes\<close> for \<open>dec_word\<close> and \<open>out_llrs\<close>.
\<close>

theorem no_iterations_returns_zeros:
  assumes "wf_graph g" and "int (length llr_vec) = n_vnodes g" and "n_iters \<le> 0"
  shows "ldpc_bp_decode A llr_vec g n_iters =
           Inr (replicate (nat (n_vnodes g)) 0, replicate (nat (n_vnodes g)) 0)"
proof -
  obtain vm where "bp_init A llr_vec g =
     Inr \<lparr>cnode_msgs = replicate (nat (n_cnodes g * max_cnode_deg g)) (f_lit A 0), vnode_msgs = vm,
          dec_word = replicate (nat (n_vnodes g)) 0, out_llrs = replicate (nat (n_vnodes g)) 0\<rparr>"
    using bp_init_ok[of g llr_vec] assms by auto
  then show ?thesis using assms(3) by (simp add: ldpc_bp_decode_def)
qed

theorem no_iterations_returns_zeros_witness:
  "wf_graph pair_graph \<and> int (length [Fin 3, Fin (- 2)]) = n_vnodes pair_graph \<and> (- 1 :: int) \<le> 0 \<and>
   ldpc_bp_decode exact [Fin 3, Fin (- 2)] pair_graph (- 1) = Inr ([0, 0], [0, 0])"
proof -
  have l: "int (length [Fin 3, Fin (- 2)]) = n_vnodes pair_graph" by (simp add: pair_graph_def)
  have n: "(- 1 :: int) \<le> 0" by simp
  have r: "replicate (nat (n_vnodes pair_graph)) (0::int) = [0, 0]"
    by (simp add: pair_graph_def eval_nat_numeral)
  show ?thesis
    using no_iterations_returns_zeros[OF wf_pair_graph l n, where A = exact] wf_pair_graph l by (simp add: r)
qed

text \<open>
  Claim C8 (rejection of invalid input), as stated, fails: a call with \<open>n_iters = 0\<close> is not
  rejected, it returns the all-zero vectors.
\<close>

theorem zero_iters_not_rejected:
  "ldpc_bp_decode exact [Fin 1, Fin 1] pair_graph 0 = Inr ([0, 0], [0, 0])"
  by (simp add: decode_eval)

text \<open>
  Claim C8, amended.  The decoder has no check of its arguments and no error of its own.
  For a well-formed graph, an LLR vector shorter than \<open>n_vnodes\<close> makes the initialisation
  raise \<^verbatim>\<open>IndexError\<close>, before any iteration and whatever \<open>n_iters\<close> is.
\<close>

theorem short_llr_vec_raises:
  assumes wf: "wf_graph g" and short: "int (length llr_vec) < n_vnodes g"
  shows "bp_init A llr_vec g = Inl IndexError \<and> ldpc_bp_decode A llr_vec g n_iters = Inl IndexError"
proof -
  let ?k = "length llr_vec"
  from wf have nn: "0 \<le> n_vnodes g" "0 \<le> n_cnodes g * max_cnode_deg g"
      "0 \<le> n_vnodes g * max_vnode_deg g" and lv: "int (length (vnode_deg_list g)) = n_vnodes g"
    by (simp_all add: wf_graph_def)
  have k: "?k < nat (n_vnodes g)" using short by simp
  have split: "xrange (n_vnodes g) = xrange (int ?k) @ int ?k # map int [Suc ?k..<nat (n_vnodes g)]"
    by (rule xrange_split[OF k])
  have ok: "\<exists>vm'. init_vnode g llr_vec y vm = Inr vm'" if "y \<in> set (xrange (int ?k))" for y vm
    using that short lv by (auto simp: init_vnode_def set_xrange np_get_nonneg Let_def)
  have bad: "init_vnode g llr_vec (int ?k) vm = Inl IndexError" for vm
    using short lv by (simp add: init_vnode_def Let_def np_get_nonneg np_get_beyond)
  have "foldE (init_vnode g llr_vec) (xrange (n_vnodes g)) vm = Inl IndexError" for vm
    unfolding split using ok bad by (intro foldE_fails) auto
  then have "bp_init A llr_vec g = Inl IndexError"
    using nn by (simp add: bp_init_def np_zeros_def)
  then show ?thesis by (simp add: ldpc_bp_decode_def)
qed

theorem short_llr_vec_raises_witness:
  "wf_graph pair_graph \<and> int (length [Fin 1]) < n_vnodes pair_graph \<and>
   bp_init exact [Fin 1] pair_graph = Inl IndexError \<and>
   ldpc_bp_decode exact [Fin 1] pair_graph 5 = Inl IndexError"
proof -
  have s: "int (length [Fin 1]) < n_vnodes pair_graph" by (simp add: pair_graph_def)
  show ?thesis using short_llr_vec_raises[OF wf_pair_graph s, where A = exact and n_iters = 5] wf_pair_graph s by simp
qed

section \<open>Early termination\<close>

lemma slot_bound:
  assumes "0 \<le> m" "c < n" "int i < d" "d \<le> m"
  shows "0 \<le> int c * m + int i" "int c * m + int i < int n * m"
proof -
  show "0 \<le> int c * m + int i" using assms(1) by simp
  have "int c * m + int i < int c * m + m" using assms(3,4) by simp
  also have "\<dots> = (int c + 1) * m" by (simp add: algebra_simps)
  also have "\<dots> \<le> int n * m" using assms(1,2) by (intro mult_right_mono) auto
  finally show "int c * m + int i < int n * m" .
qed

lemma foldE_pure:
  assumes "\<And>x s. x \<in> set xs \<Longrightarrow> f x s = Inr (h s x)"
  shows "foldE f xs s = Inr (foldl h s xs)"
  using assms by (induction xs arbitrary: s) simp_all

lemma wf_cnode_slot:
  assumes wf: "wf_graph g" and c: "c < nat (n_cnodes g)" and i: "i < nat (cnode_deg_list g ! c)"
  shows "0 \<le> int c * max_cnode_deg g + int i"
    and "int c * max_cnode_deg g + int i < int (length (cnode_adj_list g))"
    and "int c * max_cnode_deg g + int i < int (length (cnode_vnode_map g))"
    and "nat (int c * max_cnode_deg g + int i) = cslot g c i"
    and "0 \<le> cnode_adj_list g ! cslot g c i" and "cnode_adj_list g ! cslot g c i < n_vnodes g"
    and "0 \<le> cnode_vnode_map g ! cslot g c i"
    and "cnode_vnode_map g ! cslot g c i < max_vnode_deg g"
proof -
  from wf c have d: "0 \<le> cnode_deg_list g ! c" "cnode_deg_list g ! c \<le> max_cnode_deg g"
    and m: "0 \<le> max_cnode_deg g" and n: "0 \<le> n_cnodes g"
    and la: "int (length (cnode_adj_list g)) = n_cnodes g * max_cnode_deg g"
    and lm: "int (length (cnode_vnode_map g)) = n_cnodes g * max_cnode_deg g"
    by (simp_all add: wf_graph_def)
  have i': "int i < cnode_deg_list g ! c" using i by simp
  have "int c * max_cnode_deg g + int i < int (nat (n_cnodes g)) * max_cnode_deg g"
    by (rule slot_bound(2)[OF m c i' d(2)])
  then show "int c * max_cnode_deg g + int i < int (length (cnode_adj_list g))"
    and "int c * max_cnode_deg g + int i < int (length (cnode_vnode_map g))"
    using n la lm by simp_all
  show "0 \<le> int c * max_cnode_deg g + int i" using m by simp
  show "nat (int c * max_cnode_deg g + int i) = cslot g c i" by (simp add: cslot_def)
  from wf c i show "0 \<le> cnode_adj_list g ! cslot g c i"
    and "cnode_adj_list g ! cslot g c i < n_vnodes g"
    and "0 \<le> cnode_vnode_map g ! cslot g c i"
    and "cnode_vnode_map g ! cslot g c i < max_vnode_deg g"
    by (simp_all add: wf_graph_def)
qed

lemma wf_cnode_deg:
  assumes "wf_graph g" "c < nat (n_cnodes g)"
  shows "np_get (cnode_deg_list g) (int c) = Inr (cnode_deg_list g ! c)"
proof -
  from assms have "int (length (cnode_deg_list g)) = n_cnodes g" by (simp add: wf_graph_def)
  with assms(2) have "c < length (cnode_deg_list g)" by linarith
  then show ?thesis by (simp add: np_get_def)
qed

lemma p_sum_parity:
  assumes wf: "wf_graph g" and len: "int (length dw) = n_vnodes g" and c: "c < nat (n_cnodes g)"
  shows "p_sum g dw (int c) = Inr (parity g dw c)"
proof -
  let ?d = "cnode_deg_list g ! c"
  let ?h = "\<lambda>p i. xor p (dw ! nat (cnode_adj_list g ! cslot g c (nat i)))"
  have step: "bindE (np_get (cnode_adj_list g) (int c * max_cnode_deg g + i)) (\<lambda>vnode.
                bindE (np_get dw vnode) (\<lambda>b. Inr (xor p b))) = Inr (?h p i)"
    if "i \<in> set (xrange ?d)" for i p
  proof -
    from that obtain j where j: "i = int j" "j < nat ?d"
      by (auto simp: xrange_def)
    note s = wf_cnode_slot[OF wf c j(2)]
    show ?thesis using s len by (simp add: j np_get_nonneg)
  qed
  have "foldE (\<lambda>i p. bindE (np_get (cnode_adj_list g) (int c * max_cnode_deg g + i)) (\<lambda>vnode.
                bindE (np_get dw vnode) (\<lambda>b. Inr (xor p b)))) (xrange ?d) 0
        = Inr (foldl ?h 0 (xrange ?d))"
    by (rule foldE_pure) (rule step)
  moreover have "foldl ?h 0 (xrange ?d) = parity g dw c"
    by (simp add: parity_def xrange_def foldl_map)
  ultimately show ?thesis
    by (simp add: p_sum_def wf_cnode_deg[OF wf c])
qed

lemma continue_flag_parity:
  assumes wf: "wf_graph g" and len: "int (length dw) = n_vnodes g"
    and cs: "\<forall>c \<in> set cs. c < nat (n_cnodes g)"
  shows "continue_flag g dw (map int cs) =
           Inr (if (\<forall>c \<in> set cs. parity g dw c = 0) then 0 else 1)"
  using cs
proof (induction cs)
  case Nil
  show ?case by simp
next
  case (Cons c cs)
  then show ?case by (simp add: p_sum_parity[OF wf len])
qed

lemma vnode_update_dec_word_length:
  assumes "vnode_update A g llr_vec v st = Inr st'"
  shows "length (dec_word st') = length (dec_word st)"
  using assms by (auto simp: vnode_update_def bindE_eq_Inr dest: np_set_length)

lemma vnode_phase_dec_word_length:
  assumes "vnode_phase A g llr_vec st = Inr st'"
  shows "length (dec_word st') = length (dec_word st)"
proof -
  have "length (dec_word st') = length (dec_word st)"
    using assms[unfolded vnode_phase_def]
    by (rule foldE_invariant) (auto dest: vnode_update_dec_word_length)
  then show ?thesis .
qed

lemma artanh_neg_tanh: "artanh (- tanh (x::real)) = - x"
  using artanh_tanh_real[of "- x"] by simp

lemma bp_iteration_flag:
  assumes wf: "wf_graph g" and len: "int (length (dec_word st)) = n_vnodes g"
    and it: "bp_iteration A g llr_vec st = Inr (st', flag)"
  shows "flag = (if all_parity_zero g (dec_word st') then 0 else 1)"
    and "int (length (dec_word st')) = n_vnodes g"
proof -
  from it obtain cm where vp: "vnode_phase A g llr_vec (st\<lparr>cnode_msgs := cm\<rparr>) = Inr st'"
    and fl: "continue_flag g (dec_word st') (xrange (n_cnodes g)) = Inr flag"
    by (auto simp: bp_iteration_def bindE_eq_Inr)
  show len': "int (length (dec_word st')) = n_vnodes g"
    using vnode_phase_dec_word_length[OF vp] len by simp
  have "continue_flag g (dec_word st') (xrange (n_cnodes g)) =
          Inr (if (\<forall>c \<in> set [0..<nat (n_cnodes g)]. parity g (dec_word st') c = 0) then 0 else 1)"
    unfolding xrange_def by (rule continue_flag_parity[OF wf len']) simp
  with fl show "flag = (if all_parity_zero g (dec_word st') then 0 else 1)"
    by (simp add: all_parity_zero_def)
qed

lemma after_iterations_Suc:
  assumes "bp_iteration A g llr_vec st = Inr (s1, fl)"
  shows "after_iterations A g llr_vec (Suc j) st = after_iterations A g llr_vec j s1"
  using assms by simp

lemma bp_loop_stops:
  assumes wf: "wf_graph g"
  shows "int (length (dec_word st)) = n_vnodes g \<Longrightarrow> 0 < k \<Longrightarrow> k \<le> m \<Longrightarrow>
         after_iterations A g llr_vec k st = Inr st' \<Longrightarrow>
         (\<And>j s. 0 < j \<Longrightarrow> j < k \<Longrightarrow> after_iterations A g llr_vec j st = Inr s \<Longrightarrow>
                 \<not> all_parity_zero g (dec_word s)) \<Longrightarrow>
         all_parity_zero g (dec_word st') \<or> k = m \<Longrightarrow>
         bp_loop A g llr_vec m st = Inr st'"
proof (induction k arbitrary: st m)
  case 0
  then show ?case by simp
next
  case (Suc k)
  from Suc.prems(4) obtain s1 fl where it: "bp_iteration A g llr_vec st = Inr (s1, fl)"
    and rest: "after_iterations A g llr_vec k s1 = Inr st'"
    by (auto simp: bindE_eq_Inr)
  from Suc.prems(3) obtain m' where m: "m = Suc m'" by (cases m) auto
  note f = bp_iteration_flag[OF wf Suc.prems(1) it]
  have loop: "bp_loop A g llr_vec m st = (if fl = 0 then Inr s1 else bp_loop A g llr_vec m' s1)"
    by (simp add: m it)
  show ?case
  proof (cases k)
    case 0
    then have s1: "st' = s1" using rest by simp
    show ?thesis
    proof (cases "all_parity_zero g (dec_word s1)")
      case True
      then show ?thesis using loop f(1) s1 by simp
    next
      case False
      then have "m' = 0" using Suc.prems(6) s1 0 m by simp
      then show ?thesis using loop f(1) False s1 by simp
    qed
  next
    case (Suc k')
    have one: "after_iterations A g llr_vec (Suc 0) st = Inr s1" using it by simp
    have "\<not> all_parity_zero g (dec_word s1)"
      using Suc.prems(5)[of "Suc 0" s1] one Suc by simp
    then have cont: "bp_loop A g llr_vec m st = bp_loop A g llr_vec m' s1"
      using loop f(1) by simp
    have "bp_loop A g llr_vec m' s1 = Inr st'"
    proof (rule Suc.IH[OF f(2) _ _ rest])
      show "0 < k" using Suc by simp
      show "k \<le> m'" using Suc.prems(3) m by simp
      show "all_parity_zero g (dec_word st') \<or> k = m'" using Suc.prems(6) m by auto
    next
      fix j s assume j: "0 < j" "j < k" and a: "after_iterations A g llr_vec j s1 = Inr s"
      have "after_iterations A g llr_vec (Suc j) st = Inr s"
        using after_iterations_Suc[OF it] a by simp
      then show "\<not> all_parity_zero g (dec_word s)"
        using Suc.prems(5)[of "Suc j" s] j by simp
    qed
    then show ?thesis using cont by simp
  qed
qed

lemma wf_chain_graph: "wf_graph chain_graph"
  by code_simp

text \<open>
  Claim C3 (early termination).  For a well-formed graph, let \<open>st'\<close> be the state after
  pass \<open>k\<close> of the main loop, \<open>1 \<le> k \<le> n_iters\<close>, where after every earlier pass some check node
  had a parity other than \<open>0\<close>.  If every check node has parity \<open>0\<close> in \<open>st'\<close>, or \<open>k\<close> is the
  last pass of the budget, then \<open>ldpc_bp_decode\<close> returns the \<open>dec_word\<close> and \<open>out_llrs\<close> of
  \<open>st'\<close>: it stops at the first pass that ends with all parities \<open>0\<close> and goes on otherwise.
\<close>

theorem early_termination:
  assumes wf: "wf_graph g" and init: "bp_init A llr_vec g = Inr st0"
    and k: "0 < k" "k \<le> nat n_iters"
    and run: "after_iterations A g llr_vec k st0 = Inr st'"
    and before: "\<And>j s. 0 < j \<Longrightarrow> j < k \<Longrightarrow> after_iterations A g llr_vec j st0 = Inr s \<Longrightarrow>
                   \<not> all_parity_zero g (dec_word s)"
    and stop: "all_parity_zero g (dec_word st') \<or> k = nat n_iters"
  shows "ldpc_bp_decode A llr_vec g n_iters = Inr (dec_word st', out_llrs st')"
proof -
  from wf have n: "0 \<le> n_vnodes g" by (simp add: wf_graph_def)
  from init have "dec_word st0 = replicate (nat (n_vnodes g)) 0"
    by (auto simp: bp_init_def bindE_eq_Inr np_zeros_def split: if_splits)
  then have len: "int (length (dec_word st0)) = n_vnodes g" using n by simp
  have "bp_loop A g llr_vec (nat n_iters) st0 = Inr st'"
    by (rule bp_loop_stops[OF wf len k(1) k(2) run _ stop]) (rule before)
  then show ?thesis by (simp add: ldpc_bp_decode_def init)
qed

theorem early_termination_witness:
  "wf_graph chain_graph \<and>
   bp_init exact [Fin (7 / 2), Fin (- 1), Fin (- (5 / 4))] chain_graph =
     Inr \<lparr>cnode_msgs = [Fin 0, Fin 0, Fin 0, Fin 0],
          vnode_msgs = [Fin (7 / 2), Fin 0, Fin (- 1), Fin (- 1), Fin (- (5 / 4)), Fin 0],
          dec_word = [0, 0, 0], out_llrs = [0, 0, 0]\<rparr> \<and>
   after_iterations exact chain_graph [Fin (7 / 2), Fin (- 1), Fin (- (5 / 4))] 1
     \<lparr>cnode_msgs = [Fin 0, Fin 0, Fin 0, Fin 0],
      vnode_msgs = [Fin (7 / 2), Fin 0, Fin (- 1), Fin (- 1), Fin (- (5 / 4)), Fin 0],
      dec_word = [0, 0, 0], out_llrs = [0, 0, 0]\<rparr> =
     Inr \<lparr>cnode_msgs = [Fin (- 1), Fin (7 / 2), Fin (- (5 / 4)), Fin (- 1)],
          vnode_msgs = [Fin (7 / 2), Fin 0, Fin (- (9 / 4)), Fin (5 / 2), Fin (- (5 / 4)), Fin 0],
          dec_word = [0, 0, 1], out_llrs = [2, 1, - 2]\<rparr> \<and>
   \<not> all_parity_zero chain_graph [0, 0, 1] \<and>
   after_iterations exact chain_graph [Fin (7 / 2), Fin (- 1), Fin (- (5 / 4))] 2
     \<lparr>cnode_msgs = [Fin 0, Fin 0, Fin 0, Fin 0],
      vnode_msgs = [Fin (7 / 2), Fin 0, Fin (- 1), Fin (- 1), Fin (- (5 / 4)), Fin 0],
      dec_word = [0, 0, 0], out_llrs = [0, 0, 0]\<rparr> =
     Inr \<lparr>cnode_msgs = [Fin (- (9 / 4)), Fin (7 / 2), Fin (- (5 / 4)), Fin (5 / 2)],
          vnode_msgs = [Fin (7 / 2), Fin 0, Fin (- (9 / 4)), Fin (5 / 2), Fin (- (5 / 4)), Fin 0],
          dec_word = [0, 0, 0], out_llrs = [1, 1, 1]\<rparr> \<and>
   all_parity_zero chain_graph [0, 0, 0] \<and>
   ldpc_bp_decode exact [Fin (7 / 2), Fin (- 1), Fin (- (5 / 4))] chain_graph 5 =
     Inr ([0, 0, 0], [1, 1, 1])"
proof -
  let ?llr = "[Fin (7 / 2), Fin (- 1), Fin (- (5 / 4))]"
  let ?st0 = "\<lparr>cnode_msgs = [Fin 0, Fin 0, Fin 0, Fin 0],
      vnode_msgs = [Fin (7 / 2), Fin 0, Fin (- 1), Fin (- 1), Fin (- (5 / 4)), Fin 0],
      dec_word = [0, 0, 0], out_llrs = [0, 0, 0 :: int]\<rparr>"
  let ?st1 = "\<lparr>cnode_msgs = [Fin (- 1), Fin (7 / 2), Fin (- (5 / 4)), Fin (- 1)],
      vnode_msgs = [Fin (7 / 2), Fin 0, Fin (- (9 / 4)), Fin (5 / 2), Fin (- (5 / 4)), Fin 0],
      dec_word = [0, 0, 1], out_llrs = [2, 1, - 2 :: int]\<rparr>"
  let ?st2 = "\<lparr>cnode_msgs = [Fin (- (9 / 4)), Fin (7 / 2), Fin (- (5 / 4)), Fin (5 / 2)],
      vnode_msgs = [Fin (7 / 2), Fin 0, Fin (- (9 / 4)), Fin (5 / 2), Fin (- (5 / 4)), Fin 0],
      dec_word = [0, 0, 0], out_llrs = [1, 1, 1 :: int]\<rparr>"
  have init: "bp_init exact ?llr chain_graph = Inr ?st0"
    by (simp add: decode_eval chain_graph_def)
  have it1: "bp_iteration exact chain_graph ?llr ?st0 = Inr (?st1, 1)"
    by (simp add: decode_eval chain_graph_def artanh_tanh_real artanh_neg_tanh)
  have it2: "bp_iteration exact chain_graph ?llr ?st1 = Inr (?st2, 0)"
    by (simp add: decode_eval chain_graph_def artanh_tanh_real artanh_neg_tanh)
  have a1: "after_iterations exact chain_graph ?llr 1 ?st0 = Inr ?st1"
    using it1 by simp
  have a2: "after_iterations exact chain_graph ?llr 2 ?st0 = Inr ?st2"
    using it1 it2 by (simp add: eval_nat_numeral)
  have p1: "\<not> all_parity_zero chain_graph [0, 0, 1]"
    by (simp add: all_parity_zero_def chain_graph_def parity_def cslot_def upt_rec
        eval_nat_numeral)
  have p2: "all_parity_zero chain_graph [0, 0, 0]"
    by (simp add: all_parity_zero_def chain_graph_def parity_def cslot_def upt_rec
        eval_nat_numeral)
  have before: "\<not> all_parity_zero chain_graph (dec_word s)"
    if "0 < j" "j < 2" "after_iterations exact chain_graph ?llr j ?st0 = Inr s" for j s
  proof -
    from that(1,2) have "j = 1" by simp
    with that(3) a1 have "s = ?st1" by simp
    then show ?thesis using p1 by simp
  qed
  have k: "(0::nat) < 2" "(2::nat) \<le> nat 5" by simp_all
  have stop: "all_parity_zero chain_graph (dec_word ?st2) \<or> (2::nat) = nat 5"
    using p2 by simp
  show ?thesis
    using early_termination[OF wf_chain_graph init k a2 before stop] wf_chain_graph init a1 a2
      p1 p2 by simp
qed

section \<open>The check-node update\<close>

lemma slot_bound_int:
  fixes a k n m :: int
  assumes "0 \<le> a" "a < n" "0 \<le> k" "k < m"
  shows "0 \<le> a * m + k" and "a * m + k < n * m"
proof -
  have m: "0 \<le> m" using assms(3,4) by simp
  show "0 \<le> a * m + k" using assms(1,3) m by simp
  have "a * m + k < (a + 1) * m" using assms(4) by (simp add: algebra_simps)
  also have "\<dots> \<le> n * m" using assms(2) m by (intro mult_right_mono) auto
  finally show "a * m + k < n * m" .
qed

lemma cnode_in_msg_incoming:
  assumes wf: "wf_graph g" and lv: "int (length vmsgs) = n_vnodes g * max_vnode_deg g"
    and c: "c < nat (n_cnodes g)" and i: "i < nat (cnode_deg_list g ! c)"
  shows "cnode_in_msg g vmsgs (int c) (int i) = Inr (incoming g vmsgs c i)"
proof -
  note s = wf_cnode_slot[OF wf c i]
  let ?a = "cnode_adj_list g ! cslot g c i" and ?k = "cnode_vnode_map g ! cslot g c i"
  have b: "0 \<le> ?a * max_vnode_deg g + ?k" "?a * max_vnode_deg g + ?k < int (length vmsgs)"
    using slot_bound_int[OF s(5) s(6) s(7) s(8)] lv by simp_all
  show ?thesis
    using s(1-4) b by (simp add: cnode_in_msg_def incoming_def np_get_nonneg)
qed

lemma cnode_prod_tanh_product:
  assumes wf: "wf_graph g" and lv: "int (length vmsgs) = n_vnodes g * max_vnode_deg g"
    and c: "c < nat (n_cnodes g)"
  shows "cnode_prod A g vmsgs (int c) (cnode_deg_list g ! c) =
           Inr (tanh_product A (map (incoming g vmsgs c) [0..<nat (cnode_deg_list g ! c)]))"
proof -
  let ?d = "cnode_deg_list g ! c"
  let ?h = "\<lambda>p i. f_mul A p (f_tanh A (f_div A (incoming g vmsgs c (nat i)) (f_lit A 2)))"
  have "cnode_prod A g vmsgs (int c) ?d = Inr (foldl ?h (f_lit A 1) (xrange ?d))"
    unfolding cnode_prod_def
  proof (rule foldE_pure)
    fix i p assume "i \<in> set (xrange ?d)"
    then obtain j where j: "i = int j" "j < nat ?d" by (auto simp: xrange_def)
    show "bindE (cnode_in_msg g vmsgs (int c) i)
            (\<lambda>m. Inr (f_mul A p (f_tanh A (f_div A m (f_lit A 2))))) = Inr (?h p i)"
      by (simp add: j cnode_in_msg_incoming[OF wf lv c j(2)])
  qed
  also have "foldl ?h (f_lit A 1) (xrange ?d) =
      tanh_product A (map (incoming g vmsgs c) [0..<nat ?d])"
    by (simp add: xrange_def tanh_product_def foldl_map)
  finally show ?thesis .
qed

text \<open>A loop that stores one value per pass, at positions that differ from pass to pass.\<close>

lemma store_loop:
  assumes step: "\<And>j xs. j < d \<Longrightarrow> length xs = len \<Longrightarrow> f (int j) xs = Inr (xs[pos j := val j])"
    and inb: "\<And>j. j < d \<Longrightarrow> pos j < len"
    and inj: "inj_on pos {..<d}"
    and len: "length xs = len"
  shows "\<exists>xs'. foldE f (xrange (int d)) xs = Inr xs' \<and> length xs' = len \<and>
           (\<forall>j<d. xs' ! pos j = val j) \<and> (\<forall>p. p \<notin> pos ` {..<d} \<longrightarrow> xs' ! p = xs ! p)"
  using step inb inj
proof (induction d)
  case 0
  show ?case using len by simp
next
  case (Suc d)
  have "inj_on pos {..<d}" using Suc.prems(3) by (rule inj_on_subset) auto
  then obtain xs' where r: "foldE f (xrange (int d)) xs = Inr xs'" and l: "length xs' = len"
    and v: "\<forall>j<d. xs' ! pos j = val j" and o: "\<forall>p. p \<notin> pos ` {..<d} \<longrightarrow> xs' ! p = xs ! p"
    using Suc.IH Suc.prems(1,2) by (metis less_Suc_eq)
  have s: "f (int d) xs' = Inr (xs'[pos d := val d])" using Suc.prems(1) l by simp
  have ne: "pos j \<noteq> pos d" if "j < d" for j
    using Suc.prems(3) that by (auto simp: inj_on_def)
  have "foldE f (xrange (int (Suc d))) xs = Inr (xs'[pos d := val d])"
    by (simp only: xrange_Suc foldE_append r bindE_Inr foldE.simps s)
  moreover have "(xs'[pos d := val d]) ! pos j = val j" if "j < Suc d" for j
  proof (cases "j = d")
    case True
    then show ?thesis using l Suc.prems(2)[of d] by simp
  next
    case False
    then have "j < d" using that by simp
    then show ?thesis using v ne[of j] by simp
  qed
  moreover have "\<forall>p. p \<notin> pos ` {..<Suc d} \<longrightarrow> (xs'[pos d := val d]) ! p = xs ! p"
    using o by (auto simp: lessThan_Suc)
  ultimately show ?case using l by simp
qed

lemma cslot_inj: "0 \<le> max_cnode_deg g \<Longrightarrow> inj_on (cslot g c) A"
  by (auto simp: inj_on_def cslot_def nat_eq_iff)

lemma cnode_update_exact:
  assumes wf: "wf_graph g" and lv: "int (length vmsgs) = n_vnodes g * max_vnode_deg g"
    and lc: "int (length cmsgs) = n_cnodes g * max_cnode_deg g"
    and c: "c < nat (n_cnodes g)"
  shows "\<exists>msg_prod cm'. cnode_prod A g vmsgs (int c) (cnode_deg_list g ! c) = Inr msg_prod \<and>
           cnode_update A g vmsgs (int c) cmsgs = Inr cm' \<and> length cm' = length cmsgs \<and>
           (\<forall>i<nat (cnode_deg_list g ! c). cm' ! cslot g c i = c_msg A msg_prod (incoming g vmsgs c i)) \<and>
           (\<forall>p. p \<notin> cslot g c ` {..<nat (cnode_deg_list g ! c)} \<longrightarrow> cm' ! p = cmsgs ! p)"
proof -
  let ?d = "cnode_deg_list g ! c"
  have d0: "0 \<le> ?d" using wf c by (simp add: wf_graph_def)
  have m0: "0 \<le> max_cnode_deg g" using wf by (simp add: wf_graph_def)
  have "\<exists>s'. cnode_prod A g vmsgs (int c) ?d = Inr s'"
    unfolding cnode_prod_def
  proof (rule foldE_total)
    fix i s assume "i \<in> set (xrange ?d)"
    then obtain j where j: "i = int j" "j < nat ?d" by (auto simp: xrange_def)
    show "\<exists>s'. bindE (cnode_in_msg g vmsgs (int c) i) (\<lambda>m. Inr (f_mul A s (f_tanh A (f_div A m (f_lit A 2))))) = Inr s'"
      by (simp add: j cnode_in_msg_incoming[OF wf lv c j(2)])
  qed
  then obtain P where P: "cnode_prod A g vmsgs (int c) ?d = Inr P" by blast
  let ?f = "\<lambda>i cm. bindE (cnode_in_msg g vmsgs (int c) i) (\<lambda>m.
                np_set cm (int c * max_cnode_deg g + i) (c_msg A P m))"
  have step: "?f (int j) xs = Inr (xs[cslot g c j := c_msg A P (incoming g vmsgs c j)])"
    if "j < nat ?d" "length xs = length cmsgs" for j xs
  proof -
    note s = wf_cnode_slot[OF wf c that(1)]
    have "int c * max_cnode_deg g + int j < int (length xs)"
      using s(2) wf lc that(2) by (simp add: wf_graph_def)
    then show ?thesis
      using s(1,4) by (simp add: cnode_in_msg_incoming[OF wf lv c that(1)] np_set_nonneg)
  qed
  have inb: "cslot g c j < length cmsgs" if "j < nat ?d" for j
  proof -
    note s = wf_cnode_slot[OF wf c that]
    have "int c * max_cnode_deg g + int j < int (length cmsgs)"
      using s(2) wf lc by (simp add: wf_graph_def)
    then show ?thesis using s(1,4) by linarith
  qed
  obtain cm' where r: "foldE ?f (xrange (int (nat ?d))) cmsgs = Inr cm'"
    and l: "length cm' = length cmsgs"
    and v: "\<forall>j<nat ?d. cm' ! cslot g c j = c_msg A P (incoming g vmsgs c j)"
    and o: "\<forall>p. p \<notin> cslot g c ` {..<nat ?d} \<longrightarrow> cm' ! p = cmsgs ! p"
    using store_loop[of "nat ?d" "length cmsgs" ?f "cslot g c" "\<lambda>j. c_msg A P (incoming g vmsgs c j)" cmsgs]
      step inb cslot_inj[OF m0] by blast
  have "cnode_update A g vmsgs (int c) cmsgs = Inr cm'"
    using r d0 by (simp add: cnode_update_def wf_cnode_deg[OF wf c] P)
  with P l v o show ?thesis by blast
qed

lemma cslot_disjoint:
  assumes "0 \<le> max_cnode_deg g" "int i < max_cnode_deg g" "int i' < max_cnode_deg g" "c \<noteq> c'"
  shows "cslot g c i \<noteq> cslot g c' i'"
proof
  assume e: "cslot g c i = cslot g c' i'"
  let ?m = "max_cnode_deg g"
  have "int c * ?m + int i = int c' * ?m + int i'"
    using e assms(1) unfolding cslot_def by (simp add: nat_eq_iff)
  then have "(int c * ?m + int i) div ?m = (int c' * ?m + int i') div ?m" by simp
  moreover have "(int c * ?m + int i) div ?m = int c" using assms(2) by simp
  moreover have "(int c' * ?m + int i') div ?m = int c'" using assms(3) by simp
  ultimately show False using assms(4) by simp
qed

lemma cnode_phase_exact:
  assumes wf: "wf_graph g" and lv: "int (length vmsgs) = n_vnodes g * max_vnode_deg g"
    and lc: "int (length cmsgs) = n_cnodes g * max_cnode_deg g"
    and k: "k \<le> nat (n_cnodes g)"
  shows "\<exists>cm'. foldE (cnode_update A g vmsgs) (xrange (int k)) cmsgs = Inr cm' \<and>
           length cm' = length cmsgs \<and>
           (\<forall>c<k. \<forall>i<nat (cnode_deg_list g ! c). \<exists>msg_prod.
              cnode_prod A g vmsgs (int c) (cnode_deg_list g ! c) = Inr msg_prod \<and>
              cm' ! cslot g c i = c_msg A msg_prod (incoming g vmsgs c i))"
  using k
proof (induction k)
  case 0
  show ?case by simp
next
  case (Suc k)
  then obtain cm1 where r: "foldE (cnode_update A g vmsgs) (xrange (int k)) cmsgs = Inr cm1"
    and l: "length cm1 = length cmsgs"
    and v: "\<forall>c<k. \<forall>i<nat (cnode_deg_list g ! c). \<exists>msg_prod.
              cnode_prod A g vmsgs (int c) (cnode_deg_list g ! c) = Inr msg_prod \<and>
              cm1 ! cslot g c i = c_msg A msg_prod (incoming g vmsgs c i)"
    by auto
  have kc: "k < nat (n_cnodes g)" using Suc.prems by simp
  have lc1: "int (length cm1) = n_cnodes g * max_cnode_deg g" using l lc by simp
  obtain P cm2 where P: "cnode_prod A g vmsgs (int k) (cnode_deg_list g ! k) = Inr P"
    and u: "cnode_update A g vmsgs (int k) cm1 = Inr cm2" and l2: "length cm2 = length cm1"
    and v2: "\<forall>i<nat (cnode_deg_list g ! k). cm2 ! cslot g k i = c_msg A P (incoming g vmsgs k i)"
    and o2: "\<forall>p. p \<notin> cslot g k ` {..<nat (cnode_deg_list g ! k)} \<longrightarrow> cm2 ! p = cm1 ! p"
    using cnode_update_exact[OF wf lv lc1 kc] by blast
  have run: "foldE (cnode_update A g vmsgs) (xrange (int (Suc k))) cmsgs = Inr cm2"
    by (simp only: xrange_Suc foldE_append r bindE_Inr foldE.simps u)
  have m0: "0 \<le> max_cnode_deg g" using wf by (simp add: wf_graph_def)
  have dle: "cnode_deg_list g ! c \<le> max_cnode_deg g" if "c < nat (n_cnodes g)" for c
    using wf that by (simp add: wf_graph_def)
  have keep: "cm2 ! cslot g c i = cm1 ! cslot g c i"
    if "c < k" "i < nat (cnode_deg_list g ! c)" for c i
  proof -
    have "cslot g c i \<noteq> cslot g k i'" if i': "i' < nat (cnode_deg_list g ! k)" for i'
    proof (rule cslot_disjoint[OF m0])
      show "int i < max_cnode_deg g" using \<open>i < nat (cnode_deg_list g ! c)\<close> dle[of c] \<open>c < k\<close> kc by linarith
      show "int i' < max_cnode_deg g" using i' dle[OF kc] by linarith
      show "c \<noteq> k" using \<open>c < k\<close> by simp
    qed
    then have "cslot g c i \<notin> cslot g k ` {..<nat (cnode_deg_list g ! k)}" by auto
    then show ?thesis using o2 by simp
  qed
  have "\<exists>msg_prod. cnode_prod A g vmsgs (int c) (cnode_deg_list g ! c) = Inr msg_prod \<and>
              cm2 ! cslot g c i = c_msg A msg_prod (incoming g vmsgs c i)"
    if "c < Suc k" "i < nat (cnode_deg_list g ! c)" for c i
  proof (cases "c = k")
    case True
    then show ?thesis using P v2 that(2) by auto
  next
    case False
    then have "c < k" using that(1) by simp
    then show ?thesis using v keep that(2) by auto
  qed
  then show ?case using run l l2 by auto
qed

text \<open>
  Claim C1 (check-node message).  For a well-formed graph and message arrays of the right
  lengths, whatever the double arithmetic \<open>A\<close> is: the check-node update phase completes, and
  it leaves in slot \<open>(c, i)\<close> of \<open>cnode_msgs\<close> the value \<open>2 * arctanh (P / tanh (m\<^sub>i / 2))\<close>,
  where \<open>m\<^sub>i\<close> is the incoming message on edge \<open>i\<close> of check node \<open>c\<close> and \<open>P\<close> is the product of
  \<open>tanh (m\<^sub>j / 2)\<close> over all edges \<open>j\<close> of \<open>c\<close>, each operation being the one of \<open>A\<close>.  This holds
  in particular when \<open>tanh (m\<^sub>i / 2)\<close> is not zero and the quotient lies in \<open>(-1, 1)\<close>.
\<close>

theorem check_node_message:
  assumes wf: "wf_graph g"
    and lv: "int (length vmsgs) = n_vnodes g * max_vnode_deg g"
    and lc: "int (length cmsgs) = n_cnodes g * max_cnode_deg g"
    and c: "c < nat (n_cnodes g)" and i: "i < nat (cnode_deg_list g ! c)"
  shows "\<exists>cm'. cnode_phase A g vmsgs cmsgs = Inr cm' \<and>
           cm' ! cslot g c i =
             f_mul A (f_lit A 2)
               (f_arctanh A
                 (f_div A
                   (tanh_product A (map (incoming g vmsgs c) [0..<nat (cnode_deg_list g ! c)]))
                   (f_tanh A (f_div A (incoming g vmsgs c i) (f_lit A 2)))))"
proof -
  have n: "int (nat (n_cnodes g)) = n_cnodes g" using wf by (simp add: wf_graph_def)
  obtain cm' where r: "foldE (cnode_update A g vmsgs) (xrange (int (nat (n_cnodes g)))) cmsgs = Inr cm'"
    and v: "\<forall>c<nat (n_cnodes g). \<forall>i<nat (cnode_deg_list g ! c). \<exists>msg_prod.
              cnode_prod A g vmsgs (int c) (cnode_deg_list g ! c) = Inr msg_prod \<and>
              cm' ! cslot g c i = c_msg A msg_prod (incoming g vmsgs c i)"
    using cnode_phase_exact[OF wf lv lc order_refl] by blast
  from v c i obtain P where P: "cnode_prod A g vmsgs (int c) (cnode_deg_list g ! c) = Inr P"
    and e: "cm' ! cslot g c i = c_msg A P (incoming g vmsgs c i)" by blast
  have "P = tanh_product A (map (incoming g vmsgs c) [0..<nat (cnode_deg_list g ! c)])"
    using P cnode_prod_tanh_product[OF wf lv c, of A] by simp
  then have "cm' ! cslot g c i =
      f_mul A (f_lit A 2)
        (f_arctanh A
          (f_div A
            (tanh_product A (map (incoming g vmsgs c) [0..<nat (cnode_deg_list g ! c)]))
            (f_tanh A (f_div A (incoming g vmsgs c i) (f_lit A 2)))))"
    using e by (simp add: c_msg_def)
  then show ?thesis using r[unfolded n] unfolding cnode_phase_def by blast
qed

theorem check_node_message_witness:
  "wf_graph pair_graph \<and>
   tanh_product exact (map (incoming pair_graph [Fin 1, Fin 2] 0)
       [0..<nat (cnode_deg_list pair_graph ! 0)]) = Fin (tanh (1 / 2) * tanh 1) \<and>
   (\<exists>cm'. cnode_phase exact pair_graph [Fin 1, Fin 2] [Fin 0, Fin 0] = Inr cm' \<and>
      cm' ! cslot pair_graph 0 0 = Fin (2 * artanh (tanh (1 / 2) * tanh 1 / tanh (1 / 2))))"
proof -
  have lv: "int (length [Fin 1, Fin 2]) = n_vnodes pair_graph * max_vnode_deg pair_graph"
    and lc: "int (length [Fin 0, Fin 0]) = n_cnodes pair_graph * max_cnode_deg pair_graph"
    and c: "(0::nat) < nat (n_cnodes pair_graph)"
    and i: "(0::nat) < nat (cnode_deg_list pair_graph ! 0)"
    by (simp_all add: pair_graph_def)
  have pr: "tanh_product exact (map (incoming pair_graph [Fin 1, Fin 2] 0)
       [0..<nat (cnode_deg_list pair_graph ! 0)]) = Fin (tanh (1 / 2) * tanh 1)"
    by (simp add: tanh_product_def exact_def incoming_def pair_graph_def cslot_def upt_rec
        eval_nat_numeral)
  have m: "incoming pair_graph [Fin 1, Fin 2] 0 0 = Fin 1"
    by (simp add: incoming_def pair_graph_def cslot_def)
  have q: "f_mul exact (f_lit exact 2)
             (f_arctanh exact (f_div exact (Fin (tanh (1 / 2) * tanh 1))
                (f_tanh exact (f_div exact (Fin 1) (f_lit exact 2))))) =
           Fin (2 * artanh (tanh (1 / 2) * tanh 1 / tanh (1 / 2)))"
    by (simp add: exact_def)
  show ?thesis
    using check_node_message[OF wf_pair_graph lv lc c i, where A = exact] wf_pair_graph
    unfolding pr m q by simp
qed

section \<open>Clipping of the variable-node messages\<close>

lemma exact_simps [simp]:
  "f_lit exact z = Fin (of_int z)" "f_add exact = fadd" "f_sub exact = fsub"
  "f_mul exact = fmul" "f_div exact = fdiv" "f_tanh exact = ftanh" "f_arctanh exact = farctanh"
  "f_gt exact = fgt" "f_lt exact = flt" "f_to_int64 exact = to_int64"
  by (simp_all add: exact_def)

lemma exact_ieee_like: "ieee_like exact (\<lambda>x. x)"
proof -
  have a: "\<exists>a b. x = Fin a \<and> y = Fin b" if "fadd x y = Fin r" for x y r
    using that by (cases x; cases y) simp_all
  have t: "\<exists>r. x = Fin r" if "to_int64 x = Inr z" for x z
    using that by (cases x) simp_all
  show ?thesis
    unfolding ieee_like_def
    by (auto simp: MAX_POS_LLR_def MIN_NEG_LLR_def fsub_def fgt_def dest: a t)
qed

lemma ieee_likeD:
  assumes "ieee_like A den"
  shows "den (MAX_POS_LLR A) = Fin 38" and "den (MIN_NEG_LLR A) = Fin (- 38)"
    and "f_gt A x y = fgt (den x) (den y)" and "f_lt A x y = flt (den x) (den y)"
    and "f_to_int64 A x = Inr z \<Longrightarrow> \<exists>r. den x = Fin r"
    and "den (f_add A x y) = Fin r \<Longrightarrow> \<exists>a b. den x = Fin a \<and> den y = Fin b"
    and "den x = Fin a \<Longrightarrow> den y = Fin b \<Longrightarrow> den (f_sub A x y) \<noteq> NaN"
  using assms unfolding ieee_like_def by blast+

lemma clipped_limit_llr:
  assumes fl: "ieee_like A den" and x: "den x \<noteq> NaN"
  shows "clipped (den (limit_llr A x))"
  using x
  by (cases "den x")
     (simp_all add: clipped_def limit_llr_def fgt_def ieee_likeD(1-4)[OF fl])

lemma sum_loop_finite:
  assumes fl: "ieee_like A den"
    and run: "foldE (\<lambda>i s. bindE (src i) (\<lambda>m. Inr (f_add A s m))) is s0 = Inr s"
    and fin: "den s = Fin r"
  shows "(\<exists>y. den s0 = Fin y) \<and> (\<forall>i \<in> set is. \<exists>m x. src i = Inr m \<and> den m = Fin x)"
  using run
proof (induction "is" arbitrary: s0)
  case Nil
  then show ?case using fin by simp
next
  case (Cons i "is")
  from Cons.prems obtain m where m: "src i = Inr m"
    and rest: "foldE (\<lambda>i s. bindE (src i) (\<lambda>m. Inr (f_add A s m))) is (f_add A s0 m) = Inr s"
    by (auto simp: bindE_eq_Inr)
  from Cons.IH[OF rest] obtain y where y: "den (f_add A s0 m) = Fin y"
    and tail: "\<forall>j \<in> set is. \<exists>m x. src j = Inr m \<and> den m = Fin x" by blast
  from ieee_likeD(6)[OF fl y] m tail show ?case by auto
qed

text \<open>A loop whose every pass stores one value with property \<open>Q\<close>.\<close>

lemma store_loop_property:
  assumes step: "\<And>i xs ys. i \<in> set is \<Longrightarrow> f i xs = Inr ys \<Longrightarrow>
      \<exists>p y. np_index (length xs) (idx i) = Inr p \<and> ys = xs[p := y] \<and> Q y"
    and run: "foldE f is xs = Inr xs'"
  shows "length xs' = length xs \<and>
         (\<forall>p<length xs. xs' ! p = xs ! p \<or> Q (xs' ! p)) \<and>
         (\<forall>i \<in> set is. \<exists>p. np_index (length xs) (idx i) = Inr p \<and> Q (xs' ! p))"
  using step run
proof (induction "is" arbitrary: xs)
  case Nil
  then show ?case by simp
next
  case (Cons i "is")
  from Cons.prems(2) obtain xs1 where s1: "f i xs = Inr xs1" and rest: "foldE f is xs1 = Inr xs'"
    by (auto simp: bindE_eq_Inr)
  from Cons.prems(1)[OF _ s1] obtain p y where p: "np_index (length xs) (idx i) = Inr p"
    and xs1: "xs1 = xs[p := y]" and y: "Q y" by auto
  have pl: "p < length xs" using np_index_Inr[OF p] .
  have l1: "length xs1 = length xs" using xs1 by simp
  have ih: "length xs' = length xs1 \<and>
         (\<forall>p<length xs1. xs' ! p = xs1 ! p \<or> Q (xs' ! p)) \<and>
         (\<forall>i \<in> set is. \<exists>p. np_index (length xs1) (idx i) = Inr p \<and> Q (xs' ! p))"
    using Cons.prems(1) by (intro Cons.IH[OF _ rest]) auto
  have a: "length xs' = length xs" using ih l1 by simp
  have b: "xs' ! q = xs ! q \<or> Q (xs' ! q)" if "q < length xs" for q
  proof (cases "q = p")
    case True
    have "xs' ! p = xs1 ! p \<or> Q (xs' ! p)" using ih pl l1 by simp
    moreover have "xs1 ! p = y" using xs1 pl by simp
    ultimately show ?thesis using y True by auto
  next
    case False
    have "xs' ! q = xs1 ! q \<or> Q (xs' ! q)" using ih that l1 by simp
    moreover have "xs1 ! q = xs ! q" using xs1 False by simp
    ultimately show ?thesis by auto
  qed
  have c: "\<exists>p. np_index (length xs) (idx j) = Inr p \<and> Q (xs' ! p)" if "j \<in> set (i # is)" for j
  proof (cases "j \<in> set is")
    case True
    then show ?thesis using ih l1 by auto
  next
    case False
    then have "j = i" using that by simp
    moreover have "Q (xs' ! p)" using b[OF pl] xs1 pl y ih l1
      by (metis nth_list_update_eq)
    ultimately show ?thesis using p by auto
  qed
  show ?case using a b c by blast
qed

lemma fsub_Fin [simp]: "fsub (Fin a) (Fin b) = Fin (a - b)"
  by (simp add: fsub_def)

lemma vnode_update_clipped:
  assumes fl: "ieee_like A den"
    and up: "vnode_update A g llr_vec v st = Inr st'"
    and deg: "np_get (vnode_deg_list g) v = Inr d"
  shows "length (vnode_msgs st') = length (vnode_msgs st) \<and>
         (\<forall>p<length (vnode_msgs st). vnode_msgs st' ! p = vnode_msgs st ! p \<or>
                                     clipped (den (vnode_msgs st' ! p))) \<and>
         (\<forall>i \<in> set (xrange d). \<exists>p.
            np_index (length (vnode_msgs st)) (v * max_vnode_deg g + i) = Inr p \<and>
            clipped (den (vnode_msgs st' ! p)))"
proof -
  let ?body = "\<lambda>msg_sum i vm. bindE (vnode_in_msg g (cnode_msgs st) v i) (\<lambda>m.
                     bindE (np_get llr_vec v) (\<lambda>l.
                       np_set vm (v * max_vnode_deg g + i)
                         (limit_llr A (f_sub A (f_add A l msg_sum) m))))"
  from up deg obtain msg_sum vm l z where
    sum: "vnode_sum A g (cnode_msgs st) v d = Inr msg_sum"
    and loop: "foldE (?body msg_sum) (xrange d) (vnode_msgs st) = Inr vm"
    and l: "np_get llr_vec v = Inr l"
    and z: "f_to_int64 A (f_add A l msg_sum) = Inr z"
    and vm: "vnode_msgs st' = vm"
    by (auto simp: vnode_update_def bindE_eq_Inr)
  from ieee_likeD(5)[OF fl z] obtain r where r: "den (f_add A l msg_sum) = Fin r" by blast
  from ieee_likeD(6)[OF fl r] obtain b where b: "den msg_sum = Fin b" by blast
  have fin: "\<forall>i \<in> set (xrange d). \<exists>m x. vnode_in_msg g (cnode_msgs st) v i = Inr m \<and> den m = Fin x"
    using sum_loop_finite[OF fl sum[unfolded vnode_sum_def] b] by blast
  have step: "\<exists>p y. np_index (length xs) (v * max_vnode_deg g + i) = Inr p \<and> ys = xs[p := y] \<and>
                clipped (den y)"
    if "i \<in> set (xrange d)" "?body msg_sum i xs = Inr ys" for i xs ys
  proof -
    from fin that(1) obtain m x where m: "vnode_in_msg g (cnode_msgs st) v i = Inr m"
      and x: "den m = Fin x" by blast
    let ?y = "limit_llr A (f_sub A (f_add A l msg_sum) m)"
    from that(2) have "np_set xs (v * max_vnode_deg g + i) ?y = Inr ys"
      by (simp add: m l)
    then obtain p where "np_index (length xs) (v * max_vnode_deg g + i) = Inr p"
      and "ys = xs[p := ?y]"
      by (auto simp: np_set_def bindE_eq_Inr)
    moreover have "clipped (den ?y)"
      by (rule clipped_limit_llr[OF fl ieee_likeD(7)[OF fl r x]])
    ultimately show ?thesis by blast
  qed
  show ?thesis
    using store_loop_property[of "xrange d" "?body msg_sum" "\<lambda>i. v * max_vnode_deg g + i"
        "\<lambda>y. clipped (den y)" "vnode_msgs st" vm, OF step loop] vm by simp
qed

lemma wf_vnode_deg:
  assumes "wf_graph g" "v < nat (n_vnodes g)"
  shows "np_get (vnode_deg_list g) (int v) = Inr (vnode_deg_list g ! v)"
proof -
  from assms have "int (length (vnode_deg_list g)) = n_vnodes g" by (simp add: wf_graph_def)
  with assms(2) have "v < length (vnode_deg_list g)" by linarith
  then show ?thesis by (simp add: np_get_def)
qed

text \<open>
  Claim C2 (clipping), as stated, fails for the initial messages: the initialisation copies
  the channel LLR into the live slots without clipping.
\<close>

theorem initial_messages_unclipped:
  "bp_init exact [Fin 100, Fin 100] pair_graph =
     Inr \<lparr>cnode_msgs = [Fin 0, Fin 0], vnode_msgs = [Fin 100, Fin 100],
          dec_word = [0, 0], out_llrs = [0, 0]\<rparr> \<and>
   \<not> clipped (Fin 100)"
  by (simp add: decode_eval clipped_def)

text \<open>
  Claim C2, amended.  For a well-formed graph, any LLR vector and any state, after every
  variable-node update phase that completes, every live slot \<open>i < vnode_deg[v]\<close> of
  \<open>vnode_msgs\<close> holds a finite value within \<open>[-38, 38]\<close>.  This holds for every arithmetic
  with the properties \<open>ieee_like\<close>, so for doubles with their rounding and overflow.
\<close>

theorem vnode_messages_clipped:
  assumes fl: "ieee_like A den"
    and wf: "wf_graph g" and ph: "vnode_phase A g llr_vec st = Inr st'"
    and v: "v < nat (n_vnodes g)" and i: "i < nat (vnode_deg_list g ! v)"
  shows "vslot g v i < length (vnode_msgs st') \<and>
         clipped (den (vnode_msgs st' ! vslot g v i))"
proof -
  let ?f = "vnode_update A g llr_vec"
  let ?L = "length (vnode_msgs st)"
  from ph obtain s1 where
    s1: "foldE ?f (xrange (int v)) st = Inr s1"
    and rest: "foldE ?f (int v # map int [Suc v..<nat (n_vnodes g)]) s1 = Inr st'"
    unfolding vnode_phase_def xrange_split[OF v] foldE_append by (auto simp: bindE_eq_Inr)
  from rest obtain s2 where s2: "?f (int v) s1 = Inr s2"
    and tl: "foldE ?f (map int [Suc v..<nat (n_vnodes g)]) s2 = Inr st'"
    by (auto simp: bindE_eq_Inr)
  have m0: "0 \<le> max_vnode_deg g" using wf by (simp add: wf_graph_def)
  note u = vnode_update_clipped[OF fl s2 wf_vnode_deg[OF wf v]]
  have "int i \<in> set (xrange (vnode_deg_list g ! v))" using i by (simp add: set_xrange)
  with u obtain p where p: "np_index (length (vnode_msgs s1)) (int v * max_vnode_deg g + int i) = Inr p"
    and cl: "clipped (den (vnode_msgs s2 ! p))" by blast
  have "0 \<le> int v * max_vnode_deg g + int i" using m0 by simp
  then have pv: "p = vslot g v i"
    using p by (auto simp: np_index_def vslot_def Let_def split: if_splits)
  have pl: "p < length (vnode_msgs s2)" using np_index_Inr[OF p] u by simp
  have "length (vnode_msgs st') = length (vnode_msgs s2) \<and> clipped (den (vnode_msgs st' ! p))"
    using tl
  proof (rule foldE_invariant)
    show "length (vnode_msgs s2) = length (vnode_msgs s2) \<and> clipped (den (vnode_msgs s2 ! p))"
      using cl by simp
  next
    fix x a b
    assume inv: "length (vnode_msgs a) = length (vnode_msgs s2) \<and> clipped (den (vnode_msgs a ! p))"
      and st: "vnode_update A g llr_vec x a = Inr b"
    from st obtain d where "np_get (vnode_deg_list g) x = Inr d"
      by (auto simp: vnode_update_def bindE_eq_Inr)
    from vnode_update_clipped[OF fl st this] inv pl
    show "length (vnode_msgs b) = length (vnode_msgs s2) \<and> clipped (den (vnode_msgs b ! p))"
      by auto
  qed
  then show ?thesis using pv pl by simp
qed

theorem vnode_messages_clipped_witness:
  "ieee_like exact (\<lambda>x. x) \<and> wf_graph pair_graph \<and>
   vnode_phase exact pair_graph [Fin 100, Fin 100]
     \<lparr>cnode_msgs = [Fin 100, Fin 100], vnode_msgs = [Fin 100, Fin 100],
      dec_word = [0, 0], out_llrs = [0, 0]\<rparr> =
     Inr \<lparr>cnode_msgs = [Fin 100, Fin 100], vnode_msgs = [Fin 38, Fin 38],
      dec_word = [0, 0], out_llrs = [200, 200]\<rparr> \<and>
   (1::nat) < nat (n_vnodes pair_graph) \<and> (0::nat) < nat (vnode_deg_list pair_graph ! 1) \<and>
   clipped (Fin 38)"
proof -
  let ?st = "\<lparr>cnode_msgs = [Fin 100, Fin 100], vnode_msgs = [Fin 100, Fin 100],
      dec_word = [0, 0], out_llrs = [0, 0]\<rparr>"
  let ?st' = "\<lparr>cnode_msgs = [Fin 100, Fin 100], vnode_msgs = [Fin 38, Fin 38],
      dec_word = [0, 0], out_llrs = [200, 200]\<rparr>"
  have ph: "vnode_phase exact pair_graph [Fin 100, Fin 100] ?st = Inr ?st'"
    by (simp add: decode_eval)
  have v: "(1::nat) < nat (n_vnodes pair_graph)"
    and i: "(0::nat) < nat (vnode_deg_list pair_graph ! 1)"
    by (simp_all add: pair_graph_def)
  have s: "vnode_msgs ?st' ! vslot pair_graph 1 0 = Fin 38"
    by (simp add: vslot_def pair_graph_def)
  show ?thesis
    using vnode_messages_clipped[OF exact_ieee_like wf_pair_graph ph v i]
      exact_ieee_like wf_pair_graph ph v i
    unfolding s by simp
qed

section \<open>The arrays built from a design file\<close>

lemma slice_bound_le: "slice_bound len a \<le> len"
  by (auto simp: slice_bound_def max_def)

lemma slice_bound_nonneg: "0 \<le> a \<Longrightarrow> slice_bound len a = min (nat a) len"
  by (simp add: slice_bound_def)

lemma slice_assign_Inr:
  assumes "slice_assign row d vals = Inr row'"
  shows "length row' = length row"
    and "\<And>j. slice_bound (length row) d \<le> j \<Longrightarrow> j < length row \<Longrightarrow> row' ! j = row ! j"
proof -
  let ?hi = "slice_bound (length row) d"
  have hi: "?hi \<le> length row" by (rule slice_bound_le)
  from assms obtain ws where ws: "row' = ws @ drop ?hi row" "length ws = ?hi"
    by (auto simp: slice_assign_def Let_def split: if_splits)
  show "length row' = length row" using ws hi by simp
  show "row' ! j = row ! j" if "?hi \<le> j" "j < length row" for j
    using ws that by (simp add: nth_append)
qed

lemma np_index_int: "np_index len (int r) = Inr p \<longleftrightarrow> p = r \<and> r < len"
  by (auto simp: np_index_def)

lemma np_index_range: "np_index len e = Inr p \<Longrightarrow> - int len \<le> e \<and> e < int len"
  by (auto simp: np_index_def Let_def split: if_splits)

lemma np_index_nonneg_Inr: "np_index len e = Inr p \<Longrightarrow> 0 \<le> e \<Longrightarrow> p = nat e"
  by (auto simp: np_index_def Let_def split: if_splits)

lemma np_get_int: "np_get xs (int r) = Inr x \<longleftrightarrow> r < length xs \<and> x = xs ! r"
  by (auto simp: np_get_def bindE_eq_Inr np_index_int)

lemma np_set_int: "np_set xs (int r) v = Inr ys \<longleftrightarrow> r < length xs \<and> ys = xs[r := v]"
  by (auto simp: np_set_def bindE_eq_Inr np_index_int)

lemma np_set2_int:
  "np_set2 m (int r) (int i) x = Inr m' \<longleftrightarrow>
     r < length m \<and> i < length (m ! r) \<and> m' = m[r := (m ! r)[i := x]]"
  by (auto simp: np_set2_def bindE_eq_Inr np_get_int np_set_int)

text \<open>A table of \<open>n\<close> rows of length \<open>m\<close>.\<close>

lemma concat_nth:
  assumes "\<forall>row \<in> set rows. length row = m" "r < length rows" "i < m"
  shows "concat rows ! (r * m + i) = rows ! r ! i" and "r * m + i < length (concat rows)"
  using assms
proof (induction rows arbitrary: r)
  case Nil
  { case 1 then show ?case by simp }
  { case 2 then show ?case by simp }
next
  case (Cons row rows)
  { case 1
    show ?case
    proof (cases r)
      case 0
      then show ?thesis using 1 by (simp add: nth_append)
    next
      case (Suc r')
      then show ?thesis using 1 Cons.IH(1)[of r'] by (simp add: nth_append)
    qed }
  { case 2
    show ?case
    proof (cases r)
      case 0
      then show ?thesis using 2 by simp
    next
      case (Suc r')
      then show ?thesis using 2 Cons.IH(2)[of r'] by simp
    qed }
qed

lemma neg_ones_Inr:
  assumes "neg_ones n m = Inr t"
  shows "0 \<le> n" "0 \<le> m" "t = replicate (nat n) (replicate (nat m) (- 1))"
  using assms by (auto simp: neg_ones_def split: if_splits)

text \<open>Selecting from \<open>0, \<dots>, n - 1\<close> by the positions of a row that equal a node index.\<close>

lemma filter_upt_single:
  assumes "filter P [0..<n] = [q]"
  shows "q < n \<and> P q \<and> (\<forall>q'<n. P q' \<longrightarrow> q' = q)"
proof -
  have "set (filter P [0..<n]) = {q}" using assms by simp
  then have "{p. p < n \<and> P p} = {q}" by auto
  then show ?thesis by blast
qed

lemma bool_index_single:
  assumes "bool_index strict (xrange n) (map (\<lambda>e. e = a) row) = Inr [x]"
  shows "\<exists>q. x = int q \<and> q < length row \<and> row ! q = a \<and>
             (\<forall>q'<length row. row ! q' = a \<longrightarrow> q' = q)"
proof -
  let ?P = "\<lambda>p. map (\<lambda>e. e = a) row ! p"
  let ?pos = "filter ?P [0..<length row]"
  from assms have all: "list_all (\<lambda>p. p < length (xrange n)) ?pos"
    and m: "map (\<lambda>p. xrange n ! p) ?pos = [x]"
    by (auto simp: bool_index_def Let_def split: if_splits)
  from m obtain q where q: "?pos = [q]" and x: "x = xrange n ! q" by auto
  from filter_upt_single[OF q] have u: "q < length row" "?P q" "\<forall>q'<length row. ?P q' \<longrightarrow> q' = q"
    by auto
  have "q < length (xrange n)" using all q by simp
  then have "x = int q" using x by (simp add: xrange_def)
  moreover have "row ! q = a" using u(1,2) by simp
  moreover have "\<forall>q'<length row. row ! q' = a \<longrightarrow> q' = q" using u(3) by auto
  ultimately show ?thesis using u(1) by blast
qed


lemma table_nth: "table n m t \<Longrightarrow> r < n \<Longrightarrow> length (t ! r) = m"
  by (simp add: table_def)

lemma table_update: "table n m t \<Longrightarrow> length row = m \<Longrightarrow> table n m (t[r := row])"
  by (auto simp: table_def dest: set_update_subset_insert[THEN subsetD])

lemma table_replicate: "table n m (replicate n (replicate m x))"
  by (simp add: table_def)

lemma foldE_steps:
  assumes "foldE f xs s = Inr s'" "x \<in> set xs"
  shows "\<exists>a b. f x a = Inr b"
  using assms
proof (induction xs arbitrary: s)
  case Nil
  then show ?case by simp
next
  case (Cons y ys)
  from Cons.prems(1) obtain s1 where "f y s = Inr s1" "foldE f ys s1 = Inr s'"
    by (auto simp: bindE_eq_Inr)
  then show ?case using Cons.IH Cons.prems(2) by auto
qed

lemma fill_row_Inr:
  assumes "fill_row deg_list (int k) (adj, file) = Inr (adj', file')"
  shows "\<exists>row'. k < length deg_list \<and> k < length adj \<and> adj' = adj[k := row'] \<and>
           length row' = length (adj ! k) \<and>
           (\<forall>j. slice_bound (length (adj ! k)) (deg_list ! k) \<le> j \<longrightarrow> j < length (adj ! k) \<longrightarrow>
                row' ! j = adj ! k ! j)"
proof -
  from assms obtain vals row' where d: "k < length deg_list" and a: "k < length adj"
    and sa: "slice_assign (adj ! k) (deg_list ! k) vals = Inr row'"
    and u: "adj' = adj[k := row']"
    by (auto simp: fill_row_def Let_def bindE_eq_Inr np_get_int np_set_int split: prod.splits)
  from slice_assign_Inr[OF sa] d a u show ?thesis by blast
qed

lemma fill_loop:
  assumes run: "foldE (fill_row deg_list) (xrange n) (replicate (nat n) (replicate m (- 1)), f) =
                  Inr (adj, f')"
  shows "table (nat n) m adj"
    and "\<And>r j. r < nat n \<Longrightarrow> slice_bound m (deg_list ! r) \<le> j \<Longrightarrow> j < m \<Longrightarrow> adj ! r ! j = - 1"
    and "nat n \<le> length deg_list"
proof -
  let ?Inv = "\<lambda>(a, fl :: string list). table (nat n) m a \<and>
      (\<forall>r<nat n. \<forall>j<m. slice_bound m (deg_list ! r) \<le> j \<longrightarrow> a ! r ! j = - 1)"
  have "?Inv (adj, f')"
    using run
  proof (rule foldE_invariant)
    show "?Inv (replicate (nat n) (replicate m (- 1)), f)" by (simp add: table_replicate)
  next
    fix x a b assume x: "x \<in> set (xrange n)" and inv: "?Inv a" and st: "fill_row deg_list x a = Inr b"
    from x obtain k where k: "x = int k" "k < nat n" by (auto simp: xrange_def)
    obtain a1 fl where a1: "a = (a1, fl)" by (cases a)
    obtain b1 fl' where b1: "b = (b1, fl')" by (cases b)
    from inv a1 have t: "table (nat n) m a1"
      and p: "\<forall>r<nat n. \<forall>j<m. slice_bound m (deg_list ! r) \<le> j \<longrightarrow> a1 ! r ! j = - 1" by auto
    from fill_row_Inr[OF st[unfolded k a1 b1]] obtain row' where
      u: "b1 = a1[k := row']" and l: "length row' = length (a1 ! k)"
      and keep: "\<forall>j. slice_bound (length (a1 ! k)) (deg_list ! k) \<le> j \<longrightarrow> j < length (a1 ! k) \<longrightarrow>
                row' ! j = a1 ! k ! j" by blast
    have lk: "length (a1 ! k) = m" using table_nth[OF t k(2)] .
    have t': "table (nat n) m b1" unfolding u using t l lk by (intro table_update) auto
    have "b1 ! r ! j = - 1" if "r < nat n" "j < m" "slice_bound m (deg_list ! r) \<le> j" for r j
    proof (cases "r = k")
      case True
      have "b1 ! r = row'" using u True t k(2) by (simp add: table_def)
      then show ?thesis using keep lk that p True by simp
    next
      case False
      then show ?thesis using u p that by simp
    qed
    then show "?Inv b" using t' b1 by simp
  qed
  then show "table (nat n) m adj"
    and "\<And>r j. r < nat n \<Longrightarrow> slice_bound m (deg_list ! r) \<le> j \<Longrightarrow> j < m \<Longrightarrow> adj ! r ! j = - 1"
    by auto
  have "r < length deg_list" if "r < nat n" for r
  proof -
    have "int r \<in> set (xrange n)" using that by (simp add: set_xrange)
    from foldE_steps[OF run this] obtain a b where "fill_row deg_list (int r) a = Inr b" by blast
    then show ?thesis using fill_row_Inr[of deg_list r "fst a" "snd a" "fst b" "snd b"] by auto
  qed
  then show "nat n \<le> length deg_list" by (meson not_less_eq_eq not_less order_refl less_le_trans leI)
qed

lemma foldE_writes:
  assumes run: "foldE f xs s = Inr s'" and dist: "distinct xs"
    and step: "\<And>x a b. x \<in> set xs \<Longrightarrow> f x a = Inr b \<Longrightarrow>
                 G x (rd b x) \<and> (\<forall>y \<in> set xs. y \<noteq> x \<longrightarrow> rd b y = rd a y)"
  shows "\<forall>x \<in> set xs. G x (rd s' x)"
  using run dist step
proof (induction xs arbitrary: s)
  case Nil
  show ?case by simp
next
  case (Cons x xs)
  from Cons.prems(1) obtain s1 where s1: "f x s = Inr s1" and rest: "foldE f xs s1 = Inr s'"
    by (auto simp: bindE_eq_Inr)
  have g: "G x (rd s1 x)" using Cons.prems(3)[OF _ s1] by simp
  have "rd s' x = rd s1 x"
    using rest
  proof (rule foldE_invariant)
    show "rd s1 x = rd s1 x" by simp
  next
    fix y a b assume y: "y \<in> set xs" and e: "rd a x = rd s1 x" and st: "f y a = Inr b"
    have "x \<noteq> y" using Cons.prems(2) y by auto
    then have "rd b x = rd a x" using Cons.prems(3)[of y a b] y st by simp
    then show "rd b x = rd s1 x" using e by simp
  qed
  then have "G x (rd s' x)" using g by simp
  moreover have "\<forall>y \<in> set xs. G y (rd s' y)"
  proof (rule Cons.IH[OF rest])
    show "distinct xs" using Cons.prems(2) by simp
  next
    fix y a b assume "y \<in> set xs" "f y a = Inr b"
    then show "G y (rd b y) \<and> (\<forall>z \<in> set xs. z \<noteq> y \<longrightarrow> rd b z = rd a z)"
      using Cons.prems(3)[of y a b] by simp
  qed
  ultimately show ?case by simp
qed

lemma map_entry_Inr:
  assumes "map_entry strict other (xrange n) (int r) (int i) nb m = Inr m'"
  shows "\<exists>x. back_ref other nb (int r) x \<and> r < length m \<and> i < length (m ! r) \<and>
             m' = m[r := (m ! r)[i := x]]"
proof -
  from assms obtain orow sel where o: "np_get other nb = Inr orow"
    and b: "bool_index strict (xrange n) (map (\<lambda>e. e = int r) orow) = Inr sel"
    and c: "(case sel of [x] \<Rightarrow> np_set2 m (int r) (int i) x | _ \<Rightarrow> Inl ValueError) = Inr m'"
    by (auto simp: map_entry_def bindE_eq_Inr)
  from c obtain x where sel: "sel = [x]" and w: "np_set2 m (int r) (int i) x = Inr m'"
    by (auto split: list.splits)
  from o obtain rowp where rp: "np_index (length other) nb = Inr rowp" and orow: "orow = other ! rowp"
    by (auto simp: np_get_def bindE_eq_Inr)
  from bool_index_single[OF b[unfolded sel]] rp orow have "back_ref other nb (int r) x"
    unfolding back_ref_def by blast
  with w show ?thesis by (auto simp: np_set2_int)
qed

lemma map_row_Inr:
  assumes run: "map_row strict adj deg_list other (xrange n) (int r) m = Inr m'"
  shows "r < length deg_list" and "r < length adj"
    and "\<And>i. i < slice_bound (length (adj ! r)) (deg_list ! r) \<Longrightarrow>
            back_ref other (adj ! r ! i) (int r) (m' ! r ! i)"
    and "\<And>r'. r' \<noteq> r \<Longrightarrow> m' ! r' = m ! r'"
    and "table a b m \<Longrightarrow> table a b m'"
proof -
  let ?hi = "slice_bound (length (adj ! r)) (deg_list ! r)"
  let ?xs = "enumerate 0 (take ?hi (adj ! r))"
  let ?f = "\<lambda>(i, nb). map_entry strict other (xrange n) (int r) (int i) nb"
  from run have d: "r < length deg_list" and a: "r < length adj"
    and loop: "foldE ?f ?xs m = Inr m'"
    by (auto simp: map_row_def bindE_eq_Inr np_get_int)
  show "r < length deg_list" "r < length adj" by fact+
  have hi: "?hi \<le> length (adj ! r)" by (rule slice_bound_le)
  have mem: "(i, nb) \<in> set ?xs \<longleftrightarrow> i < ?hi \<and> nb = adj ! r ! i" for i nb
    using hi by (auto simp: in_set_enumerate_eq)
  let ?G = "\<lambda>(i, nb) v. back_ref other nb (int r) v"
  let ?rd = "\<lambda>t (i :: nat, nb :: int). t ! r ! i"
  have "\<forall>x \<in> set ?xs. ?G x (?rd m' x)"
  proof (rule foldE_writes[where G = ?G and rd = ?rd and f = ?f, OF loop])
    show "distinct ?xs" by simp
  next
    fix x s t assume x: "x \<in> set ?xs" and st: "?f x s = Inr t"
    obtain i nb where xi: "x = (i, nb)" by (cases x)
    from map_entry_Inr[OF st[unfolded xi prod.case]] obtain v where
      v: "back_ref other nb (int r) v" "r < length s" "i < length (s ! r)"
         "t = s[r := (s ! r)[i := v]]" by blast
    have nb: "i < ?hi" "nb = adj ! r ! i" using x xi mem by auto
    have w: "t ! r ! i = v" using v by simp
    have fr: "t ! r ! i' = s ! r ! i'" if "i' \<noteq> i" for i'
      using v that by simp
    have "?rd t y = ?rd s y" if "y \<in> set ?xs" "y \<noteq> x" for y
    proof -
      obtain i' nb' where yi: "y = (i', nb')" by (cases y)
      have "nb' = adj ! r ! i'" using that(1) yi mem by auto
      then have "i' \<noteq> i" using that(2) yi xi nb by auto
      then show ?thesis using fr yi by simp
    qed
    then show "?G x (?rd t x) \<and> (\<forall>y \<in> set ?xs. y \<noteq> x \<longrightarrow> ?rd t y = ?rd s y)"
      using v(1) w xi by simp
  qed
  then have res: "\<forall>x \<in> set ?xs. ?G x (?rd m' x)" .
  show "back_ref other (adj ! r ! i) (int r) (m' ! r ! i)" if "i < ?hi" for i
  proof -
    have "(i, adj ! r ! i) \<in> set ?xs" using that mem by simp
    with res show ?thesis by fastforce
  qed
  show "m' ! r' = m ! r'" if "r' \<noteq> r" for r'
    using loop
  proof (rule foldE_invariant)
    show "m ! r' = m ! r'" by simp
  next
    fix x s t assume "s ! r' = m ! r'" and st: "?f x s = Inr t"
    obtain i nb where xi: "x = (i, nb)" by (cases x)
    from map_entry_Inr[OF st[unfolded xi prod.case]] that \<open>s ! r' = m ! r'\<close>
    show "t ! r' = m ! r'" by auto
  qed
  show "table a b m'" if "table a b m"
    using loop that
  proof (rule foldE_invariant)
    fix x s t assume tb: "table a b s" and st: "?f x s = Inr t"
    obtain i nb where xi: "x = (i, nb)" by (cases x)
    from map_entry_Inr[OF st[unfolded xi prod.case]] obtain v where
      v: "r < length s" "t = s[r := (s ! r)[i := v]]" by blast
    show "table a b t" unfolding v(2) using tb v(1) by (intro table_update) (auto simp: table_def)
  qed
qed

lemma map_loop:
  assumes run: "foldE (map_row strict adj deg_list other (xrange n)) (xrange n) m = Inr m'"
    and tb: "table a b m"
  shows "table a b m'"
    and "\<And>r i. r < nat n \<Longrightarrow> i < slice_bound (length (adj ! r)) (deg_list ! r) \<Longrightarrow>
            back_ref other (adj ! r ! i) (int r) (m' ! r ! i)"
proof -
  let ?f = "map_row strict adj deg_list other (xrange n)"
  show "table a b m'"
    using run tb
  proof (rule foldE_invariant)
    fix x s t assume x: "x \<in> set (xrange n)" and "table a b s" and st: "?f x s = Inr t"
    from x obtain k where k: "x = int k" by (auto simp: xrange_def)
    show "table a b t" using map_row_Inr(5)[OF st[unfolded k]] \<open>table a b s\<close> .
  qed
  let ?G = "\<lambda>x row. \<forall>i<slice_bound (length (adj ! nat x)) (deg_list ! nat x).
                back_ref other (adj ! nat x ! i) x (row ! i)"
  let ?rd = "\<lambda>t x. t ! nat x"
  have "\<forall>x \<in> set (xrange n). ?G x (?rd m' x)"
  proof (rule foldE_writes[where G = ?G and rd = ?rd and f = ?f, OF run])
    show "distinct (xrange n)" by (simp add: xrange_def distinct_map)
  next
    fix x s t assume x: "x \<in> set (xrange n)" and st: "?f x s = Inr t"
    from x obtain k where k: "x = int k" by (auto simp: xrange_def)
    note r = map_row_Inr[OF st[unfolded k]]
    have "?G x (t ! nat x)" using r(3) k by simp
    moreover have "t ! nat y = s ! nat y" if "y \<in> set (xrange n)" "y \<noteq> x" for y
    proof -
      from that(1) obtain k' where "y = int k'" by (auto simp: xrange_def)
      then show ?thesis using r(4)[of k'] that(2) k by simp
    qed
    ultimately show "?G x (?rd t x) \<and> (\<forall>y \<in> set (xrange n). y \<noteq> x \<longrightarrow> ?rd t y = ?rd s y)"
      by simp
  qed
  then have res: "\<forall>x \<in> set (xrange n). ?G x (m' ! nat x)" .
  show "back_ref other (adj ! r ! i) (int r) (m' ! r ! i)"
    if "r < nat n" "i < slice_bound (length (adj ! r)) (deg_list ! r)" for r i
  proof -
    have "int r \<in> set (xrange n)" using that(1) by (simp add: set_xrange)
    with res have "?G (int r) (m' ! nat (int r))" by blast
    then show ?thesis using that(2) by simp
  qed
qed

lemma wrap32_id: "- (2 ^ 31) \<le> z \<Longrightarrow> z < 2 ^ 31 \<Longrightarrow> wrap32 z = z"
  by (simp add: wrap32_def)

lemma mapE_Inr:
  assumes "mapE f xs = Inr ys"
  shows "length ys = length xs"
  using assms by (induction xs arbitrary: ys) (auto simp: bindE_eq_Inr)

lemma parse_pair_Inr:
  assumes "parse_pair line = Inr (a, b)"
  shows "length (split_on (CHR 0x20) line) = 2"
proof -
  from assms obtain xs where m: "mapE py_int (split_on (CHR 0x20) line) = Inr xs"
    and c: "(case xs of [a, b] \<Rightarrow> Inr (a, b) | _ \<Rightarrow> Inl ValueError) = Inr (a, b)"
    by (auto simp: parse_pair_def bindE_eq_Inr)
  from c have "length xs = 2" by (auto split: list.splits)
  with mapE_Inr[OF m] show ?thesis by simp
qed

lemma params_structure:
  assumes "get_ldpc_code_params strict file = Inr g"
  shows "\<exists>vadj cadj vmap cmap.
     length (split_on (CHR 0x20) (fst (readline file))) = 2 \<and>
     length (split_on (CHR 0x20) (fst (readline (snd (readline file))))) = 2 \<and>
     0 \<le> n_vnodes g \<and> 0 \<le> n_cnodes g \<and> 0 \<le> max_vnode_deg g \<and> 0 \<le> max_cnode_deg g \<and>
     table (nat (n_vnodes g)) (nat (max_vnode_deg g)) vadj \<and>
     table (nat (n_cnodes g)) (nat (max_cnode_deg g)) cadj \<and>
     table (nat (n_vnodes g)) (nat (max_vnode_deg g)) vmap \<and>
     table (nat (n_cnodes g)) (nat (max_cnode_deg g)) cmap \<and>
     nat (n_vnodes g) \<le> length (vnode_deg_list g) \<and>
     nat (n_cnodes g) \<le> length (cnode_deg_list g) \<and>
     (\<forall>r<nat (n_vnodes g). \<forall>j<nat (max_vnode_deg g).
        slice_bound (nat (max_vnode_deg g)) (vnode_deg_list g ! r) \<le> j \<longrightarrow> vadj ! r ! j = - 1) \<and>
     (\<forall>r<nat (n_cnodes g). \<forall>j<nat (max_cnode_deg g).
        slice_bound (nat (max_cnode_deg g)) (cnode_deg_list g ! r) \<le> j \<longrightarrow> cadj ! r ! j = - 1) \<and>
     (\<forall>r<nat (n_vnodes g). \<forall>i<slice_bound (nat (max_vnode_deg g)) (vnode_deg_list g ! r).
        back_ref cadj (vadj ! r ! i) (int r) (vmap ! r ! i)) \<and>
     (\<forall>r<nat (n_cnodes g). \<forall>i<slice_bound (nat (max_cnode_deg g)) (cnode_deg_list g ! r).
        back_ref vadj (cadj ! r ! i) (int r) (cmap ! r ! i)) \<and>
     vnode_adj_list g = map wrap32 (concat vadj) \<and>
     cnode_adj_list g = map wrap32 (concat cadj) \<and>
     vnode_cnode_map g = map wrap32 (concat vmap) \<and>
     cnode_vnode_map g = map wrap32 (concat cmap)"
proof -
  obtain l1 f1 where r1: "readline file = (l1, f1)" by (cases "readline file")
  obtain l2 f2 where r2: "readline f1 = (l2, f2)" by (cases "readline f1")
  obtain l3 f3 where r3: "readline f2 = (l3, f3)" by (cases "readline f2")
  obtain l4 f4 where r4: "readline f3 = (l4, f4)" by (cases "readline f3")
  from assms obtain nv nc mvd mcd vdeg cdeg cadj0 vadj0 vadj f5 cadj f6 cmap0 vmap0 cmap vmap
    where p1: "parse_pair l1 = Inr (nv, nc)" and p2: "parse_pair l2 = Inr (mvd, mcd)"
      and c0: "neg_ones nc mcd = Inr cadj0" and v0: "neg_ones nv mvd = Inr vadj0"
      and fv: "foldE (fill_row vdeg) (xrange nv) (vadj0, f4) = Inr (vadj, f5)"
      and fc: "foldE (fill_row cdeg) (xrange nc) (cadj0, f5) = Inr (cadj, f6)"
      and cm0: "neg_ones nc mcd = Inr cmap0" and vm0: "neg_ones nv mvd = Inr vmap0"
      and mc: "foldE (map_row strict cadj cdeg vadj (xrange nc)) (xrange nc) cmap0 = Inr cmap"
      and mv: "foldE (map_row strict vadj vdeg cadj (xrange nv)) (xrange nv) vmap0 = Inr vmap"
      and g: "g = \<lparr>n_vnodes = nv, n_cnodes = nc, max_cnode_deg = mcd, max_vnode_deg = mvd,
             cnode_adj_list = map wrap32 (concat cadj),
             cnode_vnode_map = map wrap32 (concat cmap),
             vnode_adj_list = map wrap32 (concat vadj),
             vnode_cnode_map = map wrap32 (concat vmap),
             cnode_deg_list = cdeg, vnode_deg_list = vdeg\<rparr>"
    unfolding get_ldpc_code_params_def r1 r2 r3 r4 prod.case Let_def
    by (auto simp: bindE_eq_Inr)
  note nc = neg_ones_Inr[OF c0] and nv = neg_ones_Inr[OF v0]
  note ncm = neg_ones_Inr[OF cm0] and nvm = neg_ones_Inr[OF vm0]
  note FV = fill_loop[OF fv[unfolded nv(3)]] and FC = fill_loop[OF fc[unfolded nc(3)]]
  have tv: "table (nat nv) (nat mvd) vmap0" and tc: "table (nat nc) (nat mcd) cmap0"
    unfolding nvm(3) ncm(3) by (rule table_replicate)+
  note MV = map_loop[OF mv tv] and MC = map_loop[OF mc tc]
  have lv: "length (vadj ! r) = nat mvd" if "r < nat nv" for r using table_nth[OF FV(1) that] .
  have lc: "length (cadj ! r) = nat mcd" if "r < nat nc" for r using table_nth[OF FC(1) that] .
  have h1: "length (split_on (CHR 0x20) (fst (readline file))) = 2"
    using parse_pair_Inr[OF p1] r1 by simp
  have h2: "length (split_on (CHR 0x20) (fst (readline (snd (readline file))))) = 2"
    using parse_pair_Inr[OF p2] r1 r2 by simp
  show ?thesis
    apply (rule exI[of _ vadj], rule exI[of _ cadj], rule exI[of _ vmap], rule exI[of _ cmap])
    using h1 h2 nc(1,2) nv(1,2) FV FC MV MC lv lc
    by (simp add: g)
qed

section \<open>The cross-reference maps\<close>

lemma flat_slot:
  assumes "0 \<le> m" 
  shows "nat (int r * m + int i) = r * nat m + i"
  using assms by (simp add: nat_add_distrib nat_mult_distrib)

lemma flat_nth:
  assumes tb: "table n (nat m) t" and m: "0 \<le> m" and r: "r < n" and i: "i < nat m"
  shows "map wrap32 (concat t) ! nat (int r * m + int i) = wrap32 (t ! r ! i)"
proof -
  from tb have a: "\<forall>row \<in> set t. length row = nat m" and l: "r < length t"
    using r by (simp_all add: table_def)
  from concat_nth[OF a l i] show ?thesis by (simp add: flat_slot[OF m])
qed

text \<open>
  Claim C4 (graph consistency).  Let \<open>g\<close> be a graph that the reader returns, with counts
  and strides in the 32-bit range.  For every variable node \<open>v\<close> and slot \<open>i\<close> below its
  degree, where the degree does not exceed the stride and the slot holds a node index that
  is not negative: with \<open>c = vnode_adj[v][i]\<close> and \<open>j = vnode_cnode_map[v][i]\<close>, the slot \<open>j\<close>
  of check node \<open>c\<close> holds \<open>cnode_adj[c][j] = v\<close> and \<open>cnode_vnode_map[c][j] = i\<close>.
\<close>

theorem cross_reference_round_trip:
  assumes ok: "get_ldpc_code_params strict file = Inr g" and sz: "int32_sized g"
    and v: "v < nat (n_vnodes g)" and i: "i < nat (vnode_deg_list g ! v)"
    and dmax: "vnode_deg_list g ! v \<le> max_vnode_deg g"
    and nonneg: "0 \<le> vnode_adj_list g ! vslot g v i"
  shows "\<exists>c j. vnode_adj_list g ! vslot g v i = int c \<and> vnode_cnode_map g ! vslot g v i = int j \<and>
           c < nat (n_cnodes g) \<and> j < nat (max_cnode_deg g) \<and>
           cnode_adj_list g ! cslot g c j = int v \<and> cnode_vnode_map g ! cslot g c j = int i"
proof -
  let ?nv = "n_vnodes g" and ?nc = "n_cnodes g"
  let ?mvd = "max_vnode_deg g" and ?mcd = "max_cnode_deg g"
  from params_structure[OF ok] obtain vadj cadj vmap cmap where
    nn: "0 \<le> ?nv" "0 \<le> ?nc" "0 \<le> ?mvd" "0 \<le> ?mcd"
    and tva: "table (nat ?nv) (nat ?mvd) vadj" and tca: "table (nat ?nc) (nat ?mcd) cadj"
    and tvm: "table (nat ?nv) (nat ?mvd) vmap" and tcm: "table (nat ?nc) (nat ?mcd) cmap"
    and padc: "\<forall>r<nat ?nc. \<forall>j<nat ?mcd.
        slice_bound (nat ?mcd) (cnode_deg_list g ! r) \<le> j \<longrightarrow> cadj ! r ! j = - 1"
    and bv: "\<forall>r<nat ?nv. \<forall>i<slice_bound (nat ?mvd) (vnode_deg_list g ! r).
        back_ref cadj (vadj ! r ! i) (int r) (vmap ! r ! i)"
    and bc: "\<forall>r<nat ?nc. \<forall>i<slice_bound (nat ?mcd) (cnode_deg_list g ! r).
        back_ref vadj (cadj ! r ! i) (int r) (cmap ! r ! i)"
    and fva: "vnode_adj_list g = map wrap32 (concat vadj)"
    and fca: "cnode_adj_list g = map wrap32 (concat cadj)"
    and fvm: "vnode_cnode_map g = map wrap32 (concat vmap)"
    and fcm: "cnode_vnode_map g = map wrap32 (concat cmap)"
    by blast
  from sz have s: "?nv \<le> 2 ^ 31" "?nc \<le> 2 ^ 31" "?mvd \<le> 2 ^ 31" "?mcd \<le> 2 ^ 31"
    by (simp_all add: int32_sized_def)
  have im: "i < nat ?mvd" using i dmax by linarith
  have ihi: "i < slice_bound (nat ?mvd) (vnode_deg_list g ! v)"
    using i im by (simp add: slice_bound_def)
  let ?e = "vadj ! v ! i"
  from bv v ihi have "back_ref cadj ?e (int v) (vmap ! v ! i)" by blast
  then obtain c q where c: "np_index (length cadj) ?e = Inr c" and q: "vmap ! v ! i = int q"
    and ql: "q < length (cadj ! c)" and cq: "cadj ! c ! q = int v"
    unfolding back_ref_def by blast
  have lca: "length cadj = nat ?nc" using tca by (simp add: table_def)
  have lva: "length vadj = nat ?nv" using tva by (simp add: table_def)
  from np_index_range[OF c] have er: "- ?nc \<le> ?e" "?e < ?nc" using lca nn by simp_all
  have we: "wrap32 ?e = ?e" using er s by (intro wrap32_id) linarith+
  have slot_v: "vnode_adj_list g ! vslot g v i = ?e"
    unfolding fva vslot_def using flat_nth[OF tva nn(3) v im] we by simp
  then have e0: "0 \<le> ?e" using nonneg by simp
  have ce: "?e = int c" using np_index_nonneg_Inr[OF c e0] e0 by simp
  have cl: "c < nat ?nc" using np_index_Inr[OF c] lca by simp
  have qm: "q < nat ?mcd" using ql table_nth[OF tca cl] by simp
  have wq: "wrap32 (int q) = int q" using qm s by (intro wrap32_id) linarith+
  have slot_m: "vnode_cnode_map g ! vslot g v i = int q"
    unfolding fvm vslot_def using flat_nth[OF tvm nn(3) v im] q wq by simp
  have wv: "wrap32 (int v) = int v" using v s by (intro wrap32_id) linarith+
  have back_a: "cnode_adj_list g ! cslot g c q = int v"
    unfolding fca cslot_def using flat_nth[OF tca nn(4) cl qm] cq wv by simp
  have qhi: "q < slice_bound (nat ?mcd) (cnode_deg_list g ! c)"
  proof (rule ccontr)
    assume "\<not> q < slice_bound (nat ?mcd) (cnode_deg_list g ! c)"
    then have "cadj ! c ! q = - 1" using padc cl qm by simp
    then show False using cq by simp
  qed
  from bc cl qhi have "back_ref vadj (cadj ! c ! q) (int c) (cmap ! c ! q)" by blast
  then obtain rowp q' where rp: "np_index (length vadj) (int v) = Inr rowp"
    and q': "cmap ! c ! q = int q'"
    and u: "\<forall>k<length (vadj ! rowp). vadj ! rowp ! k = int c \<longrightarrow> k = q'"
    unfolding back_ref_def cq by blast
  have rowp: "rowp = v" using rp by (simp add: np_index_int)
  have "i < length (vadj ! v)" using table_nth[OF tva v] im by simp
  then have qi: "q' = i" using u ce rowp by auto
  have wi: "wrap32 (int i) = int i" using im s by (intro wrap32_id) linarith+
  have back_m: "cnode_vnode_map g ! cslot g c q = int i"
    unfolding fcm cslot_def using flat_nth[OF tcm nn(4) cl qm] q' qi wi by simp
  show ?thesis
    using slot_v ce slot_m cl qm back_a back_m by auto
qed

lemma pair_file_params: "get_ldpc_code_params True pair_file = Inr pair_graph"
  by code_simp

theorem cross_reference_round_trip_witness:
  "get_ldpc_code_params True pair_file = Inr pair_graph \<and> int32_sized pair_graph \<and>
   (1::nat) < nat (n_vnodes pair_graph) \<and> (0::nat) < nat (vnode_deg_list pair_graph ! 1) \<and>
   vnode_deg_list pair_graph ! 1 \<le> max_vnode_deg pair_graph \<and>
   0 \<le> vnode_adj_list pair_graph ! vslot pair_graph 1 0 \<and>
   (\<exists>c j. vnode_adj_list pair_graph ! vslot pair_graph 1 0 = int c \<and>
      vnode_cnode_map pair_graph ! vslot pair_graph 1 0 = int j \<and>
      c < nat (n_cnodes pair_graph) \<and> j < nat (max_cnode_deg pair_graph) \<and>
      cnode_adj_list pair_graph ! cslot pair_graph c j = int 1 \<and>
      cnode_vnode_map pair_graph ! cslot pair_graph c j = int 0)"
proof -
  have sz: "int32_sized pair_graph" by (simp add: int32_sized_def pair_graph_def)
  have v: "(1::nat) < nat (n_vnodes pair_graph)"
    and i: "(0::nat) < nat (vnode_deg_list pair_graph ! 1)"
    and d: "vnode_deg_list pair_graph ! 1 \<le> max_vnode_deg pair_graph"
    and n: "0 \<le> vnode_adj_list pair_graph ! vslot pair_graph 1 0"
    by (simp_all add: pair_graph_def vslot_def)
  show ?thesis
    using cross_reference_round_trip[OF pair_file_params sz v i d n] pair_file_params sz v i d n
    by simp
qed

section \<open>What the reader accepts\<close>

lemma mapE_all:
  assumes "mapE f xs = Inr ys"
  shows "list_all (\<lambda>x. \<not> isl (f x)) xs"
  using assms by (induction xs arbitrary: ys) (auto simp: bindE_eq_Inr)

lemma parse_pair_header_ok:
  assumes "parse_pair line = Inr p"
  shows "header_ok line"
proof -
  obtain a b where p: "p = (a, b)" by (cases p)
  from assms obtain xs where m: "mapE py_int (split_on (CHR 0x20) line) = Inr xs"
    by (auto simp: parse_pair_def bindE_eq_Inr)
  show ?thesis
    unfolding header_ok_def using parse_pair_Inr[OF assms[unfolded p]] mapE_all[OF m] by simp
qed

lemma params_headers:
  assumes "get_ldpc_code_params strict file = Inr g"
  shows "header_ok (fst (readline file))" and "header_ok (fst (readline (snd (readline file))))"
proof -
  obtain l1 f1 where r1: "readline file = (l1, f1)" by (cases "readline file")
  obtain l2 f2 where r2: "readline f1 = (l2, f2)" by (cases "readline f1")
  from assms obtain p1 p2 where "parse_pair l1 = Inr p1" "parse_pair l2 = Inr p2"
    unfolding get_ldpc_code_params_def r1 r2 prod.case Let_def
    by (auto simp: bindE_eq_Inr)
  then show "header_ok (fst (readline file))"
    and "header_ok (fst (readline (snd (readline file))))"
    using parse_pair_header_ok r1 r2 by simp_all
qed

lemma params_live_indices:
  assumes ok: "get_ldpc_code_params strict file = Inr g" and sz: "int32_sized g"
  shows "live_indices_in_range g"
proof -
  let ?nv = "n_vnodes g" and ?nc = "n_cnodes g"
  let ?mvd = "max_vnode_deg g" and ?mcd = "max_cnode_deg g"
  from params_structure[OF ok] obtain vadj cadj vmap cmap where
    nn: "0 \<le> ?nv" "0 \<le> ?nc" "0 \<le> ?mvd" "0 \<le> ?mcd"
    and tva: "table (nat ?nv) (nat ?mvd) vadj" and tca: "table (nat ?nc) (nat ?mcd) cadj"
    and bv: "\<forall>r<nat ?nv. \<forall>i<slice_bound (nat ?mvd) (vnode_deg_list g ! r).
        back_ref cadj (vadj ! r ! i) (int r) (vmap ! r ! i)"
    and bc: "\<forall>r<nat ?nc. \<forall>i<slice_bound (nat ?mcd) (cnode_deg_list g ! r).
        back_ref vadj (cadj ! r ! i) (int r) (cmap ! r ! i)"
    and fva: "vnode_adj_list g = map wrap32 (concat vadj)"
    and fca: "cnode_adj_list g = map wrap32 (concat cadj)"
    by blast
  from sz have s: "?nv \<le> 2 ^ 31" "?nc \<le> 2 ^ 31" by (simp_all add: int32_sized_def)
  have lca: "length cadj = nat ?nc" using tca by (simp add: table_def)
  have lva: "length vadj = nat ?nv" using tva by (simp add: table_def)
  have a: "- ?nc \<le> vnode_adj_list g ! vslot g v i \<and> vnode_adj_list g ! vslot g v i < ?nc"
    if "v < nat ?nv" "i < nat (vnode_deg_list g ! v)" "i < nat ?mvd" for v i
  proof -
    have "i < slice_bound (nat ?mvd) (vnode_deg_list g ! v)"
      using that(2,3) by (simp add: slice_bound_def)
    with bv that(1) have "back_ref cadj (vadj ! v ! i) (int v) (vmap ! v ! i)" by blast
    then obtain p where "np_index (length cadj) (vadj ! v ! i) = Inr p"
      unfolding back_ref_def by blast
    from np_index_range[OF this] have r: "- ?nc \<le> vadj ! v ! i" "vadj ! v ! i < ?nc"
      using lca nn by simp_all
    have "wrap32 (vadj ! v ! i) = vadj ! v ! i" using r s by (intro wrap32_id) linarith+
    then have "vnode_adj_list g ! vslot g v i = vadj ! v ! i"
      unfolding fva vslot_def using flat_nth[OF tva nn(3) that(1,3)] by simp
    then show ?thesis using r by simp
  qed
  have b: "- ?nv \<le> cnode_adj_list g ! cslot g c i \<and> cnode_adj_list g ! cslot g c i < ?nv"
    if "c < nat ?nc" "i < nat (cnode_deg_list g ! c)" "i < nat ?mcd" for c i
  proof -
    have "i < slice_bound (nat ?mcd) (cnode_deg_list g ! c)"
      using that(2,3) by (simp add: slice_bound_def)
    with bc that(1) have "back_ref vadj (cadj ! c ! i) (int c) (cmap ! c ! i)" by blast
    then obtain p where "np_index (length vadj) (cadj ! c ! i) = Inr p"
      unfolding back_ref_def by blast
    from np_index_range[OF this] have r: "- ?nv \<le> cadj ! c ! i" "cadj ! c ! i < ?nv"
      using lva nn by simp_all
    have "wrap32 (cadj ! c ! i) = cadj ! c ! i" using r s by (intro wrap32_id) linarith+
    then have "cnode_adj_list g ! cslot g c i = cadj ! c ! i"
      unfolding fca cslot_def using flat_nth[OF tca nn(4) that(1,3)] by simp
    then show ?thesis using r by simp
  qed
  show ?thesis unfolding live_indices_in_range_def using a b by simp
qed

text \<open>
  Claim C9 (malformed descriptions), amended.  The reader has no error of its own and
  checks nothing itself.  It returns a graph only if both header lines hold exactly two
  integers, the four header numbers are not negative, each degree list has an entry for
  every node and, for sizes in the 32-bit range, every node index in a live slot lies in
  \<open>[-n, n)\<close>; for every other description an operation of Python or numpy raises and nothing
  is returned.
\<close>

theorem reader_outcome:
  assumes "get_ldpc_code_params strict ldpc_design_file = Inr g"
  shows "header_ok (fst (readline ldpc_design_file)) \<and>
         header_ok (fst (readline (snd (readline ldpc_design_file)))) \<and>
         0 \<le> n_vnodes g \<and> 0 \<le> n_cnodes g \<and> 0 \<le> max_vnode_deg g \<and> 0 \<le> max_cnode_deg g \<and>
         nat (n_vnodes g) \<le> length (vnode_deg_list g) \<and>
         nat (n_cnodes g) \<le> length (cnode_deg_list g) \<and>
         (int32_sized g \<longrightarrow> live_indices_in_range g)"
proof -
  from params_structure[OF assms] have
    "0 \<le> n_vnodes g \<and> 0 \<le> n_cnodes g \<and> 0 \<le> max_vnode_deg g \<and> 0 \<le> max_cnode_deg g \<and>
      nat (n_vnodes g) \<le> length (vnode_deg_list g) \<and>
      nat (n_cnodes g) \<le> length (cnode_deg_list g)" by blast
  then show ?thesis
    using params_headers[OF assms] params_live_indices[OF assms] by simp
qed

theorem reader_outcome_witness:
  "get_ldpc_code_params True pair_file = Inr pair_graph \<and>
   header_ok (fst (readline pair_file)) \<and>
   header_ok (fst (readline (snd (readline pair_file)))) \<and>
   int32_sized pair_graph \<and> live_indices_in_range pair_graph"
proof -
  have sz: "int32_sized pair_graph" by (simp add: int32_sized_def pair_graph_def)
  show ?thesis
    using reader_outcome[OF pair_file_params] pair_file_params sz by simp
qed

text \<open>
  Claim C9, as stated, fails: a description that declares degree \<open>2\<close> for a variable node
  where the maximum is \<open>1\<close> is accepted; the row is clipped to the stride and the declared
  degree \<open>2\<close> is returned.
\<close>

theorem overdeg_accepted:
  "get_ldpc_code_params True overdeg_file = Inr overdeg_graph \<and>
   get_ldpc_code_params False overdeg_file = Inr overdeg_graph \<and>
   max_vnode_deg overdeg_graph < vnode_deg_list overdeg_graph ! 0"
  by code_simp

end
